theory Spec2Isabelle
  imports Complex_Main "HOL-Library.Multiset"
begin

section \<open>Values, dictionaries, parameters\<close>

text \<open>
  The module \<^verbatim>\<open>sherpa/algorithms/core.py\<close> is embedded function by function.
  Python values that occur in hyperparameter configurations are numbers and strings.
  A Python \<^verbatim>\<open>int\<close> and a \<^verbatim>\<open>float\<close> compare equal when they denote the same
  number, so both become \<open>Num\<close>; floating point rounding is not modelled (a float is
  the real number it denotes).
\<close>

datatype pyval = Num real | Str string

text \<open>
  A \<^verbatim>\<open>dict\<close> with string keys is an association list in insertion order.
  \<open>dict_get\<close> is \<^verbatim>\<open>d[k]\<close> (\<open>None\<close> where Python raises \<^verbatim>\<open>KeyError\<close>),
  \<open>dict_set\<close> is \<^verbatim>\<open>d[k] = v\<close>, \<open>dict_eq\<close> is \<^verbatim>\<open>d1 == d2\<close>, which ignores the
  order of the keys.
\<close>

type_synonym 'v dict = "(string \<times> 'v) list"

definition dict_get :: "'v dict \<Rightarrow> string \<Rightarrow> 'v option" where
  "dict_get d k = map_of d k"

fun dict_set :: "'v dict \<Rightarrow> string \<Rightarrow> 'v \<Rightarrow> 'v dict" where
  "dict_set [] k v = [(k, v)]"
| "dict_set ((k', v') # d) k v = (if k' = k then (k, v) # d else (k', v') # dict_set d k v)"

definition dict_keys :: "'v dict \<Rightarrow> string list" where
  "dict_keys d = map fst d"

definition dict_eq :: "'v dict \<Rightarrow> 'v dict \<Rightarrow> bool" where
  "dict_eq d1 d2 = list_all (\<lambda>k. dict_get d1 k = dict_get d2 k) (dict_keys d1 @ dict_keys d2)"

type_synonym config = "pyval dict"

text \<open>
  Modelled from the spec: the parameter classes of \<^verbatim>\<open>sherpa.core\<close> (imported by the
  module, not part of it). A parameter has a name, a kind in Choice, Continuous,
  Discrete, Ordinal, a range (a categorical list, or the bounds low and high) and, for
  the numeric kinds, a scale. The \<^verbatim>\<open>isinstance\<close> tests of the source are pattern
  matches on the constructor.
\<close>

datatype scale = Linear | Log

datatype 'v parameter =
    Choice (p_name: string) (p_range: "'v list")
  | Ordinal (p_name: string) (p_range: "'v list")
  | Continuous (p_name: string) (p_range: "'v list") (p_scale: scale)
  | Discrete (p_name: string) (p_range: "'v list") (p_scale: scale)

text \<open>
  What \<^verbatim>\<open>get_suggestion\<close> returns: a configuration, \<^verbatim>\<open>None\<close> (the spec's Stop
  sentinel) or \<^verbatim>\<open>AlgorithmState.WAIT\<close> (the spec's Wait sentinel).
\<close>

datatype 'c suggestion = Stop | Wait | Config 'c

text \<open>
  Exceptions are values; \<open>Exception\<close> carries its message. \<open>NonFinite\<close> is not an
  exception of the source: it marks the places where numpy goes on with nan or an
  infinity as the value of a parameter, which the numbers of this model cannot hold;
  the model's computation ends there.
\<close>

datatype error = IndexError | KeyError | ValueError | TypeError | ZeroDivisionError
  | Exception string | NonFinite

text \<open>\<^verbatim>\<open>str(n)\<close> for an integer: its decimal digits.\<close>

definition digit :: "nat \<Rightarrow> char" where
  "digit d = ''0123456789'' ! d"

fun str_nat :: "nat \<Rightarrow> string" where
  "str_nat n = (if n < 10 then [digit n] else str_nat (n div 10) @ [digit (n mod 10)])"

definition str_int :: "int \<Rightarrow> string" where
  "str_int k = (if k < 0 then CHR ''-'' # str_nat (nat (- k)) else str_nat (nat k))"

text \<open>\<^verbatim>\<open>xs[i]\<close>: a negative index counts from the end, out of range raises.\<close>

definition py_index :: "'a list \<Rightarrow> int \<Rightarrow> error + 'a" where
  "py_index xs i =
     (if 0 \<le> i \<and> i < int (length xs) then Inr (xs ! nat i)
      else if i < 0 \<and> - int (length xs) \<le> i then Inr (xs ! nat (int (length xs) + i))
      else Inl IndexError)"

text \<open>\<^verbatim>\<open>int(x)\<close> of a float, as a number: rounding towards zero.\<close>

definition py_trunc :: "real \<Rightarrow> real" where
  "py_trunc x = (if 0 \<le> x then of_int \<lfloor>x\<rfloor> else of_int \<lceil>x\<rceil>)"

text \<open>The results of a comprehension or loop whose body may raise: the first exception wins.\<close>

fun collect :: "(error + 'a) list \<Rightarrow> error + 'a list" where
  "collect [] = Inr []"
| "collect (Inl e # xs) = Inl e"
| "collect (Inr x # xs) = (case collect xs of Inl e \<Rightarrow> Inl e | Inr ys \<Rightarrow> Inr (x # ys))"

text \<open>
  A sequence of calls on one instance. Each call gets its own input (the results table
  of the moment, the random draws of the call); an exception ends the sequence, as it
  propagates to the caller.
\<close>

fun trace :: "('i \<Rightarrow> 's \<Rightarrow> error + ('o \<times> 's)) \<Rightarrow> 'i list \<Rightarrow> 's \<Rightarrow> (error + 'o) list" where
  "trace step [] s = []"
| "trace step (x # xs) s =
     (case step x s of
        Inl e \<Rightarrow> [Inl e]
      | Inr (y, s') \<Rightarrow> Inr y # trace step xs s')"

text \<open>The state the instance is left in by such a sequence.\<close>

fun final_state :: "('i \<Rightarrow> 's \<Rightarrow> error + ('o \<times> 's)) \<Rightarrow> 'i list \<Rightarrow> 's \<Rightarrow> 's" where
  "final_state step [] s = s"
| "final_state step (x # xs) s =
     (case step x s of Inl e \<Rightarrow> s | Inr (y, s') \<Rightarrow> final_state step xs s')"

section \<open>Algorithm: the default load\<close>

text \<open>\<^verbatim>\<open>Algorithm.load\<close> is \<^verbatim>\<open>pass\<close>: every class that does not override it keeps its state.\<close>

definition Algorithm_load :: "int \<Rightarrow> 'self \<Rightarrow> 'self" where
  "Algorithm_load num_trials self = self"

section \<open>RandomSearch\<close>

record RandomSearch =
  rs_i :: int
  rs_n :: int
  rs_m :: int
  rs_j :: int
  rs_theta_i :: config

text \<open>
  \<^verbatim>\<open>max_num_trials or 2**32\<close>: \<^verbatim>\<open>None\<close> and \<^verbatim>\<open>0\<close> are both falsy and give the
  default.
\<close>

definition RandomSearch_init :: "int option \<Rightarrow> int \<Rightarrow> RandomSearch" where
  "RandomSearch_init max_num_trials repeat =
     \<lparr> rs_i = 0,
       rs_n = (case max_num_trials of None \<Rightarrow> 2 ^ 32 | Some k \<Rightarrow> if k = 0 then 2 ^ 32 else k),
       rs_m = repeat,
       rs_j = 0,
       rs_theta_i = [] \<rparr>"

text \<open>
  \<^verbatim>\<open>{p.name: p.sample() for p in parameters}\<close>. The sampling primitive is random; the
  values it returns on this call are the argument \<open>draw\<close>.
\<close>

definition sample_config :: "pyval parameter list \<Rightarrow> (pyval parameter \<Rightarrow> pyval) \<Rightarrow> config" where
  "sample_config parameters draw = fold (\<lambda>p d. dict_set d (p_name p) (draw p)) parameters []"

definition RandomSearch_get_suggestion ::
  "pyval parameter list \<Rightarrow> (pyval parameter \<Rightarrow> pyval) \<Rightarrow> RandomSearch
     \<Rightarrow> config suggestion \<times> RandomSearch" where
  "RandomSearch_get_suggestion parameters draw self =
     (let self = (if rs_j self = rs_m self then self\<lparr>rs_j := 0\<rparr> else self);
          self = (if rs_j self = 0
                  then self\<lparr>rs_theta_i := sample_config parameters draw, rs_i := rs_i self + 1\<rparr>
                  else self)
      in if rs_i self > rs_n self then (Stop, self)
         else (Config (rs_theta_i self), self\<lparr>rs_j := rs_j self + 1\<rparr>))"

text \<open>
  The state after \<open>c\<close> calls and the answer of call number \<open>c\<close> (counted from 0), when
  call \<open>k\<close> draws \<open>rnd k\<close>.
\<close>

primrec RandomSearch_after ::
  "pyval parameter list \<Rightarrow> (nat \<Rightarrow> pyval parameter \<Rightarrow> pyval) \<Rightarrow> nat \<Rightarrow> RandomSearch \<Rightarrow> RandomSearch" where
  "RandomSearch_after parameters rnd 0 self = self"
| "RandomSearch_after parameters rnd (Suc c) self =
     snd (RandomSearch_get_suggestion parameters (rnd c) (RandomSearch_after parameters rnd c self))"

definition RandomSearch_answer ::
  "pyval parameter list \<Rightarrow> (nat \<Rightarrow> pyval parameter \<Rightarrow> pyval) \<Rightarrow> nat \<Rightarrow> RandomSearch \<Rightarrow> config suggestion" where
  "RandomSearch_answer parameters rnd c self =
     fst (RandomSearch_get_suggestion parameters (rnd c) (RandomSearch_after parameters rnd c self))"

text \<open>
  The states a fresh instance with cap \<open>N\<close> and repeat \<open>m\<close> passes through: \<open>rs_block\<close>
  after the \<open>r\<close>-th return of sample number \<open>q\<close> (counted from 0, drawn at call \<open>q * m\<close>),
  \<open>rs_done\<close> after the cap was hit.
\<close>

definition rs_block :: "pyval parameter list \<Rightarrow> (nat \<Rightarrow> pyval parameter \<Rightarrow> pyval) \<Rightarrow> nat \<Rightarrow> nat \<Rightarrow> nat \<Rightarrow> nat \<Rightarrow> RandomSearch" where
  "rs_block ps rnd N m q r =
     \<lparr> rs_i = int q + 1, rs_n = int N, rs_m = int m, rs_j = int r,
       rs_theta_i = sample_config ps (rnd (q * m)) \<rparr>"

definition rs_done :: "pyval parameter list \<Rightarrow> (nat \<Rightarrow> pyval parameter \<Rightarrow> pyval) \<Rightarrow> nat \<Rightarrow> nat \<Rightarrow> nat \<Rightarrow> RandomSearch" where
  "rs_done ps rnd N m k =
     \<lparr> rs_i = int N + 1 + int k, rs_n = int N, rs_m = int m, rs_j = 0,
       rs_theta_i = sample_config ps (rnd (N * m + k)) \<rparr>"

section \<open>Iterate\<close>

record 'v Iterate =
  it_hp_iter :: "'v dict list"
  it_count :: int

definition Iterate_get_suggestion :: "'v Iterate \<Rightarrow> error + ('v dict suggestion \<times> 'v Iterate)" where
  "Iterate_get_suggestion self =
     (if it_count self \<ge> int (length (it_hp_iter self)) then Inr (Stop, self)
      else case py_index (it_hp_iter self) (it_count self) of
             Inl e \<Rightarrow> Inl e
           | Inr hp \<Rightarrow> Inr (Config hp, self\<lparr>it_count := it_count self + 1\<rparr>))"

definition Iterate_load :: "int \<Rightarrow> 'v Iterate \<Rightarrow> 'v Iterate" where
  "Iterate_load num_trials self = self\<lparr>it_count := num_trials\<rparr>"

text \<open>
  \<^verbatim>\<open>get_parameters\<close>. The inner loop runs over \<^verbatim>\<open>enumerate(self.hp_iter)\<close> and
  collects in \<open>prange\<close> the values not seen before (\<^verbatim>\<open>value not in prange\<close> is a scan
  with \<^verbatim>\<open>==\<close>); a configuration without the key raises.
\<close>

definition not_found_message :: "string \<Rightarrow> nat \<Rightarrow> string" where
  "not_found_message pname i =
     ''Parameter '' @ pname @ '' not found in list item '' @ str_nat i @ ''.''"

fun collect_range :: "string \<Rightarrow> nat \<Rightarrow> 'v dict list \<Rightarrow> 'v list \<Rightarrow> error + 'v list" where
  "collect_range pname i [] prange = Inr prange"
| "collect_range pname i (hp # hps) prange =
     (case dict_get hp pname of
        None \<Rightarrow> Inl (Exception (not_found_message pname i))
      | Some v \<Rightarrow> collect_range pname (Suc i) hps (if v \<in> set prange then prange else prange @ [v]))"

text \<open>
  The outer loop over the keys of the first configuration.
  Modelled from the spec: \<^verbatim>\<open>sherpa.Parameter.from_dict\<close> with type \<^verbatim>\<open>'choice'\<close> builds
  the categorical parameter of that name and range.
\<close>

fun derive_parameters :: "string list \<Rightarrow> 'v dict list \<Rightarrow> 'v parameter list \<Rightarrow> error + 'v parameter list" where
  "derive_parameters [] hp_iter parameters = Inr parameters"
| "derive_parameters (pname # keys) hp_iter parameters =
     (case collect_range pname 0 hp_iter [] of
        Inl e \<Rightarrow> Inl e
      | Inr prange \<Rightarrow> derive_parameters keys hp_iter (parameters @ [Choice pname prange]))"

definition Iterate_get_parameters :: "'v Iterate \<Rightarrow> error + 'v parameter list" where
  "Iterate_get_parameters self =
     (case py_index (it_hp_iter self) 0 of
        Inl e \<Rightarrow> Inl e
      | Inr hp0 \<Rightarrow> derive_parameters (dict_keys hp0) (it_hp_iter self) [])"

text \<open>The constructor calls \<^verbatim>\<open>get_parameters\<close>, so it raises what that raises.\<close>

definition Iterate_init :: "'v dict list \<Rightarrow> error + 'v Iterate" where
  "Iterate_init hp_iter =
     (let self = \<lparr> it_hp_iter = hp_iter, it_count = 0 \<rparr>
      in case Iterate_get_parameters self of Inl e \<Rightarrow> Inl e | Inr parameters \<Rightarrow> Inr self)"

section \<open>The results table\<close>

text \<open>
  A float of a numeric column is not-a-number or a number. Numbers are real numbers:
  rounding and the infinities are outside this model.
\<close>

datatype npfloat = NaN | Fin real

text \<open>
  A row of the results \<^verbatim>\<open>DataFrame\<close>: the four mandatory columns, and under \<open>columns\<close>
  the value of every other column (one per parameter, and the bookkeeping columns an
  algorithm asked for). The table is the list of its rows; its index is the position.
\<close>

record row =
  Trial_ID :: int
  Status :: string
  Iteration :: nat
  Objective :: npfloat
  columns :: config

type_synonym results = "row list"

text \<open>The comparisons \<^verbatim>\<open><\<close> and \<^verbatim>\<open>>\<close> of floats: false as soon as one side is NaN.\<close>

fun fl_less :: "npfloat \<Rightarrow> npfloat \<Rightarrow> bool" where
  "fl_less (Fin x) (Fin y) = (x < y)"
| "fl_less a b = False"

definition fl_greater :: "npfloat \<Rightarrow> npfloat \<Rightarrow> bool" where
  "fl_greater a b = fl_less b a"

fun isnan :: "npfloat \<Rightarrow> bool" where
  "isnan NaN = True"
| "isnan (Fin x) = False"

text \<open>The numbers of a column, NaN entries skipped.\<close>

fun dropna :: "npfloat list \<Rightarrow> real list" where
  "dropna [] = []"
| "dropna (NaN # xs) = dropna xs"
| "dropna (Fin x # xs) = x # dropna xs"

text \<open>
  \<^verbatim>\<open>Series.min()\<close> and \<^verbatim>\<open>Series.max()\<close> skip NaN and give NaN when nothing is left
  (also on an empty column).
\<close>

definition series_min :: "npfloat list \<Rightarrow> npfloat" where
  "series_min xs = (case dropna xs of [] \<Rightarrow> NaN | v # vs \<Rightarrow> Fin (fold min vs v))"

definition series_max :: "npfloat list \<Rightarrow> npfloat" where
  "series_max xs = (case dropna xs of [] \<Rightarrow> NaN | v # vs \<Rightarrow> Fin (fold max vs v))"

text \<open>The same for the integer column \<^verbatim>\<open>Iteration\<close>: \<open>None\<close> is the NaN of an empty column.\<close>

definition iteration_max :: "nat list \<Rightarrow> nat option" where
  "iteration_max xs = (case xs of [] \<Rightarrow> None | v # vs \<Rightarrow> Some (fold max vs v))"

text \<open>
  \<^verbatim>\<open>Series.idxmin()\<close> and \<^verbatim>\<open>Series.idxmax()\<close>: the label of the first entry holding
  the minimum (maximum) over the entries that are not NaN; NaN (\<open>None\<close>) when all
  entries are NaN; \<^verbatim>\<open>ValueError\<close> on an empty column.
\<close>

definition idxmin :: "npfloat list \<Rightarrow> error + nat option" where
  "idxmin xs =
     (if xs = [] then Inl ValueError
      else case series_min xs of
             NaN \<Rightarrow> Inr None
           | Fin m \<Rightarrow> Inr (Some (length (takeWhile (\<lambda>x. x \<noteq> Fin m) xs))))"

definition idxmax :: "npfloat list \<Rightarrow> error + nat option" where
  "idxmax xs =
     (if xs = [] then Inl ValueError
      else case series_max xs of
             NaN \<Rightarrow> Inr None
           | Fin m \<Rightarrow> Inr (Some (length (takeWhile (\<lambda>x. x \<noteq> Fin m) xs))))"

text \<open>
  \<^verbatim>\<open>numpy.nanmedian\<close>: the median of the entries that are not NaN, the mean of the two
  middle ones when their number is even, NaN when there is none.
\<close>

definition nanmedian :: "npfloat list \<Rightarrow> npfloat" where
  "nanmedian xs =
     (let vs = sort (dropna xs); n = length vs
      in if n = 0 then NaN
         else if odd n then Fin (vs ! (n div 2))
         else Fin ((vs ! (n div 2 - 1) + vs ! (n div 2)) / 2))"

text \<open>\<^verbatim>\<open>results.query("Status == 'COMPLETED'")\<close>.\<close>

definition completed_rows :: "results \<Rightarrow> results" where
  "completed_rows results = filter (\<lambda>r. Status r = ''COMPLETED'') results"

section \<open>Algorithm.get\_best\_result\<close>

text \<open>A cell of a row turned into a \<^verbatim>\<open>dict\<close> by \<^verbatim>\<open>to_dict()\<close>.\<close>

datatype cell = IntCell int | FloatCell npfloat | StrCell string | ValCell pyval

definition to_dict :: "row \<Rightarrow> cell dict" where
  "to_dict r =
     [(''Trial-ID'', IntCell (Trial_ID r)), (''Status'', StrCell (Status r)),
      (''Iteration'', IntCell (int (Iteration r))), (''Objective'', FloatCell (Objective r))]
     @ map (\<lambda>(k, v). (k, ValCell v)) (columns r)"

text \<open>\<^verbatim>\<open>d.pop(k)\<close>, for the dict that is left: \<^verbatim>\<open>KeyError\<close> when the key is missing.\<close>

definition dict_pop :: "'v dict \<Rightarrow> string \<Rightarrow> error + 'v dict" where
  "dict_pop d k = (if k \<in> set (dict_keys d) then Inr (filter (\<lambda>kv. fst kv \<noteq> k) d) else Inl KeyError)"

text \<open>
  \<^verbatim>\<open>numpy.isfinite(best_idx)\<close> is false exactly for the NaN that \<^verbatim>\<open>idxmin\<close> gives on a
  column of NaN; the warning that is logged there is not part of the result.
\<close>

definition get_best_result :: "pyval parameter list \<Rightarrow> results \<Rightarrow> bool \<Rightarrow> error + cell dict" where
  "get_best_result parameters results lower_is_better =
     (case (if lower_is_better then idxmin (map Objective results)
            else idxmax (map Objective results)) of
        Inl e \<Rightarrow> Inl e
      | Inr None \<Rightarrow> Inr []
      | Inr (Some best_idx) \<Rightarrow> dict_pop (to_dict (results ! best_idx)) ''Status'')"

section \<open>MedianStoppingRule\<close>

record MedianStoppingRule =
  min_iterations :: int
  min_trials :: int

text \<open>\<^verbatim>\<open>results.loc[results['Trial-ID'] == tid]\<close>.\<close>

definition rows_of_trial :: "results \<Rightarrow> int \<Rightarrow> results" where
  "rows_of_trial results tid = filter (\<lambda>r. Trial_ID r = tid) results"

text \<open>\<^verbatim>\<open>max_iteration < self.min_iterations\<close>, false for the NaN of an empty column.\<close>

definition iteration_below :: "nat option \<Rightarrow> int \<Rightarrow> bool" where
  "iteration_below max_iteration k = (case max_iteration of None \<Rightarrow> False | Some i \<Rightarrow> int i < k)"

text \<open>
  \<^verbatim>\<open>set(results['Trial-ID']) - {trial.id}\<close>. The order in which the loop visits the set
  is not part of the result (the median and the length do not depend on it); the model
  visits the identifiers in the order of their last rows.
\<close>

definition other_trial_ids :: "results \<Rightarrow> int \<Rightarrow> int list" where
  "other_trial_ids results trial_id = filter (\<lambda>tid. tid \<noteq> trial_id) (remdups (map Trial_ID results))"

text \<open>The body of the loop: the comparison value of one other trial, if it has one.\<close>

definition comparison_val :: "MedianStoppingRule \<Rightarrow> results \<Rightarrow> bool \<Rightarrow> int \<Rightarrow> npfloat option" where
  "comparison_val self results lower_is_better tid =
     (let trial_rows = rows_of_trial results tid;
          max_iteration = iteration_max (map Iteration trial_rows)
      in if iteration_below max_iteration (min_iterations self) then None
         else let valid_rows = filter (\<lambda>r. case max_iteration of None \<Rightarrow> False
                                             | Some i \<Rightarrow> Iteration r \<le> i) trial_rows
              in Some (if lower_is_better then series_min (map Objective valid_rows)
                       else series_max (map Objective valid_rows)))"

definition comparison_vals :: "MedianStoppingRule \<Rightarrow> results \<Rightarrow> bool \<Rightarrow> int \<Rightarrow> npfloat list" where
  "comparison_vals self results lower_is_better trial_id =
     List.map_filter (comparison_val self results lower_is_better) (other_trial_ids results trial_id)"

text \<open>The best objective of the trial so far, \<open>trial_obj_val\<close> in the source.\<close>

definition trial_obj_val :: "results \<Rightarrow> bool \<Rightarrow> int \<Rightarrow> npfloat" where
  "trial_obj_val results lower_is_better trial_id =
     (if lower_is_better then series_min (map Objective (rows_of_trial results trial_id))
      else series_max (map Objective (rows_of_trial results trial_id)))"

definition should_trial_stop :: "MedianStoppingRule \<Rightarrow> int \<Rightarrow> results \<Rightarrow> bool \<Rightarrow> bool" where
  "should_trial_stop self trial_id results lower_is_better =
     (if length results = 0 then False
      else let trial_rows = rows_of_trial results trial_id;
               max_iteration = iteration_max (map Iteration trial_rows)
           in if iteration_below max_iteration (min_iterations self) then False
              else if isnan (trial_obj_val results lower_is_better trial_id) \<and> trial_rows \<noteq> [] then True
              else if int (length (comparison_vals self results lower_is_better trial_id)) < min_trials self
                   then False
              else if lower_is_better
                   then fl_greater (trial_obj_val results lower_is_better trial_id)
                          (nanmedian (comparison_vals self results lower_is_better trial_id))
                   else fl_less (trial_obj_val results lower_is_better trial_id)
                          (nanmedian (comparison_vals self results lower_is_better trial_id)))"

section \<open>The median rule as the specification words it\<close>

text \<open>
  The two notions the specification uses for MedianStoppingRule, written from its words
  and independently of the code above, to be compared with \<open>should_trial_stop\<close>: the
  best objective of a trial so far is the least (the greatest, when higher is better)
  of its objectives that are numbers, and NaN when it has none; the median of a list of
  numbers is the middle one in increasing order, the mean of the two middle ones for a
  list of even length.
\<close>

definition spec_objectives :: "results \<Rightarrow> int \<Rightarrow> npfloat list" where
  "spec_objectives results tid = [Objective r. r \<leftarrow> results, Trial_ID r = tid]"

definition spec_best :: "bool \<Rightarrow> npfloat list \<Rightarrow> npfloat" where
  "spec_best lower_is_better objs =
     (if [y. Fin y \<leftarrow> objs] = [] then NaN
      else if lower_is_better then Fin (Min (set [y. Fin y \<leftarrow> objs]))
      else Fin (Max (set [y. Fin y \<leftarrow> objs])))"

definition spec_median :: "real list \<Rightarrow> real" where
  "spec_median vs =
     (if odd (length vs) then sort vs ! (length vs div 2)
      else (sort vs ! (length vs div 2 - 1) + sort vs ! (length vs div 2)) / 2)"

text \<open>
  The best objectives, so far, of the trials \<open>others\<close>, those that are NaN left out: the
  values whose median the specification compares the trial with.
\<close>

definition spec_comparison :: "results \<Rightarrow> bool \<Rightarrow> int list \<Rightarrow> real list" where
  "spec_comparison results lower_is_better others =
     [y. Fin y \<leftarrow> map (\<lambda>tid. spec_best lower_is_better (spec_objectives results tid)) others]"

text \<open>
  A trial is past \<open>k\<close> iterations when the table has a row of it at an iteration of at
  least \<open>k\<close>.
\<close>

definition spec_reached :: "results \<Rightarrow> int \<Rightarrow> int \<Rightarrow> bool" where
  "spec_reached results k tid = (\<exists>r\<in>set results. Trial_ID r = tid \<and> k \<le> int (Iteration r))"


section \<open>Sorting the rows\<close>



section \<open>GridSearch\<close>

record GridSearch =
  gs_grid :: "config list option"
  gs_num_grid_points :: int
  gs_i :: int
  gs_m :: int
  gs_j :: int
  gs_theta_i :: config


text \<open>
  \<^verbatim>\<open>p.range[i]\<close> used as a number: \<^verbatim>\<open>IndexError\<close> when the range is too short,
  \<^verbatim>\<open>TypeError\<close> from the arithmetic when the entry is a string.
\<close>

definition bound :: "pyval list \<Rightarrow> int \<Rightarrow> error + real" where
  "bound rng i =
     (case py_index rng i of
        Inl e \<Rightarrow> Inl e
      | Inr (Num x) \<Rightarrow> Inr x
      | Inr (Str s) \<Rightarrow> Inl TypeError)"

text \<open>
  The body of the loop \<^verbatim>\<open>for i in range(self.num_grid_points)\<close> for a continuous
  (\<open>discrete = False\<close>) or discrete parameter. \<^verbatim>\<open>range[1]\<close> is read before
  \<^verbatim>\<open>range[0]\<close>. On the log scale a bound that is not positive makes numpy go on with
  nan or an infinity.
\<close>

definition grid_value :: "bool \<Rightarrow> pyval list \<Rightarrow> scale \<Rightarrow> int \<Rightarrow> int \<Rightarrow> error + pyval" where
  "grid_value discrete rng scale num_grid_points i =
     (case bound rng 1 of
        Inl e \<Rightarrow> Inl e
      | Inr hi \<Rightarrow>
          (case bound rng 0 of
             Inl e \<Rightarrow> Inl e
           | Inr lo \<Rightarrow>
               if scale = Log then
                 (if 0 < lo \<and> 0 < hi then
                    let v = log 10 hi - log 10 lo;
                        v = v * (real_of_int (i + 1) / real_of_int (num_grid_points + 1));
                        v = v + log 10 lo;
                        v = 10 powr v
                    in Inr (Num (if discrete then py_trunc v else v))
                  else Inl NonFinite)
               else
                 let v = hi - lo;
                     v = v * (real_of_int (i + 1) / real_of_int (num_grid_points + 1));
                     v = v + lo
                 in Inr (Num (if discrete then py_trunc v else v))))"

text \<open>The candidate values of one parameter; \<^verbatim>\<open>range(k)\<close> is empty for \<open>k \<le> 0\<close>.\<close>

fun candidate_values :: "int \<Rightarrow> pyval parameter \<Rightarrow> error + pyval list" where
  "candidate_values k (Continuous name rng scale) =
     collect (map (\<lambda>i. grid_value False rng scale k (int i)) [0..<nat k])"
| "candidate_values k (Discrete name rng scale) =
     collect (map (\<lambda>i. grid_value True rng scale k (int i)) [0..<nat k])"
| "candidate_values k (Choice name rng) = Inr rng"
| "candidate_values k (Ordinal name rng) = Inr rng"

fun param_dict_loop :: "int \<Rightarrow> pyval parameter list \<Rightarrow> pyval list dict \<Rightarrow> error + pyval list dict" where
  "param_dict_loop k [] param_dict = Inr param_dict"
| "param_dict_loop k (p # ps) param_dict =
     (case candidate_values k p of
        Inl e \<Rightarrow> Inl e
      | Inr values \<Rightarrow> param_dict_loop k ps (dict_set param_dict (p_name p) values))"

definition get_param_dict :: "GridSearch \<Rightarrow> pyval parameter list \<Rightarrow> error + pyval list dict" where
  "get_param_dict self parameters = param_dict_loop (gs_num_grid_points self) parameters []"






section \<open>LocalSearch\<close>

record LocalSearch =
  ls_seed_configuration :: config
  ls_count :: int
  ls_submitted :: "config list"
  ls_perturbation_factors :: "real list"
  ls_next_trial :: "config suggestion list"
  ls_repeat_trials :: int

definition LocalSearch_init :: "config \<Rightarrow> real list \<Rightarrow> int \<Rightarrow> LocalSearch" where
  "LocalSearch_init seed_configuration perturbation_factors repeat_trials =
     \<lparr> ls_seed_configuration = seed_configuration, ls_count = 0, ls_submitted = [],
       ls_perturbation_factors = perturbation_factors, ls_next_trial = [],
       ls_repeat_trials = repeat_trials \<rparr>"

text \<open>
  The random choices of one call of \<^verbatim>\<open>_get_next_trials\<close>:
  \<^verbatim>\<open>random.sample(parameters, len(parameters))\<close>, and per parameter
  \<^verbatim>\<open>random.sample(param.range, len(param.range))\<close> and \<^verbatim>\<open>random.sample([True, False], 2)\<close>.
  \<open>valid_draws\<close> says that each is a permutation of what it was sampled from.
\<close>

record ls_draws =
  sample_parameters :: "pyval parameter list"
  sample_range :: "pyval parameter \<Rightarrow> pyval list"
  sample_increase :: "pyval parameter \<Rightarrow> bool list"

definition valid_draws :: "pyval parameter list \<Rightarrow> ls_draws \<Rightarrow> bool" where
  "valid_draws parameters draws =
     (mset (sample_parameters draws) = mset parameters
      \<and> list_all (\<lambda>p. mset (sample_range draws p) = mset (p_range p)
                     \<and> mset (sample_increase draws p) = mset [True, False]) parameters)"

text \<open>\<^verbatim>\<open>new_params in self.submitted\<close>: a scan with \<^verbatim>\<open>==\<close>.\<close>

definition in_submitted :: "config \<Rightarrow> config list \<Rightarrow> bool" where
  "in_submitted new_params submitted = list_ex (dict_eq new_params) submitted"

text \<open>\<^verbatim>\<open>values.index(x)\<close>: the first position of \<open>x\<close>, \<^verbatim>\<open>ValueError\<close> when there is none.\<close>

definition list_index :: "'a list \<Rightarrow> 'a \<Rightarrow> error + nat" where
  "list_index xs x =
     (if x \<in> set xs then Inr (length (takeWhile (\<lambda>y. y \<noteq> x) xs)) else Inl ValueError)"

text \<open>\<^verbatim>\<open>numpy.clip(x, lo, hi)\<close> is \<^verbatim>\<open>minimum(maximum(x, lo), hi)\<close>.\<close>

definition clip :: "'a::linorder \<Rightarrow> 'a \<Rightarrow> 'a \<Rightarrow> 'a" where
  "clip x lo hi = min (max x lo) hi"

text \<open>
  The entries of a range as numbers, for \<^verbatim>\<open>min(range)\<close> and \<^verbatim>\<open>max(range)\<close> inside
  \<^verbatim>\<open>numpy.clip\<close>: a string among them ends in \<^verbatim>\<open>TypeError\<close>.
\<close>

definition numbers :: "pyval list \<Rightarrow> error + real list" where
  "numbers rng = collect (map (\<lambda>v. case v of Num x \<Rightarrow> Inr x | Str s \<Rightarrow> Inl TypeError) rng)"

text \<open>
  \<^verbatim>\<open>numpy.clip(x, min(rng), max(rng))\<close>; \<^verbatim>\<open>min\<close> of an empty list raises
  \<^verbatim>\<open>ValueError\<close>.
\<close>

definition clip_to_range :: "real \<Rightarrow> pyval list \<Rightarrow> error + real" where
  "clip_to_range x rng =
     (case numbers rng of
        Inl e \<Rightarrow> Inl e
      | Inr [] \<Rightarrow> Inl ValueError
      | Inr (b # bs) \<Rightarrow> Inr (clip x (fold min bs b) (fold max bs b)))"

text \<open>
  \<^verbatim>\<open>_perturb\<close>: the branch for the parameters that are not ordinal. The factors are
  floats, so a string value ends in \<^verbatim>\<open>TypeError\<close>.
\<close>

definition perturb_number :: "real list \<Rightarrow> bool \<Rightarrow> config \<Rightarrow> string \<Rightarrow> pyval list \<Rightarrow> bool \<Rightarrow> error + config" where
  "perturb_number perturbation_factors discrete candidate name rng increase =
     (case py_index perturbation_factors (if increase then 1 else 0) of
        Inl e \<Rightarrow> Inl e
      | Inr factor \<Rightarrow>
          (case dict_get candidate name of
             None \<Rightarrow> Inl KeyError
           | Some (Str s) \<Rightarrow> Inl TypeError
           | Some (Num x) \<Rightarrow>
               (let x = x * factor;
                    x = (if discrete then py_trunc x else x)
                in case clip_to_range x rng of
                     Inl e \<Rightarrow> Inl e
                   | Inr x \<Rightarrow> Inr (dict_set candidate name (Num x)))))"

fun LocalSearch_perturb :: "LocalSearch \<Rightarrow> config \<Rightarrow> pyval parameter \<Rightarrow> bool \<Rightarrow> error + config" where
  "LocalSearch_perturb self candidate (Ordinal name values) increase =
     (case dict_get candidate name of
        None \<Rightarrow> Inl KeyError
      | Some current \<Rightarrow>
          (case list_index values current of
             Inl e \<Rightarrow> Inl e
           | Inr idx \<Rightarrow>
               (let shift = (if increase then 1 else - 1);
                    newidx = clip (int idx + shift) 0 (int (length values) - 1)
                in case py_index values newidx of
                     Inl e \<Rightarrow> Inl e
                   | Inr v \<Rightarrow> Inr (dict_set candidate name v))))"
| "LocalSearch_perturb self candidate (Discrete name rng scale) increase =
     perturb_number (ls_perturbation_factors self) True candidate name rng increase"
| "LocalSearch_perturb self candidate (Continuous name rng scale) increase =
     perturb_number (ls_perturbation_factors self) False candidate name rng increase"
| "LocalSearch_perturb self candidate (Choice name rng) increase =
     perturb_number (ls_perturbation_factors self) False candidate name rng increase"

text \<open>
  \<^verbatim>\<open>row.loc[names].to_dict()\<close>: the values of the named columns, \<^verbatim>\<open>KeyError\<close> for a
  name that is no column.
\<close>

fun select_columns :: "config \<Rightarrow> string list \<Rightarrow> config \<Rightarrow> error + config" where
  "select_columns cols [] d = Inr d"
| "select_columns cols (name # names) d =
     (case dict_get cols name of
        None \<Rightarrow> Inl KeyError
      | Some v \<Rightarrow> select_columns cols names (dict_set d name v))"

text \<open>
  The seed of this call: the parameter values of the best completed row if there is a
  completed row, the seed of before otherwise. On completed rows that all have a NaN
  objective \<^verbatim>\<open>idxmin\<close> gives NaN, and \<^verbatim>\<open>completed.loc[nan, ...]\<close> raises \<^verbatim>\<open>KeyError\<close>.
\<close>

definition reseed :: "pyval parameter list \<Rightarrow> results \<Rightarrow> bool \<Rightarrow> config \<Rightarrow> error + config" where
  "reseed parameters results lower_is_better seed_configuration =
     (if length results > 0 then
        (let completed = completed_rows results
         in if length completed > 0 then
              (case (if lower_is_better then idxmin (map Objective completed)
                     else idxmax (map Objective completed)) of
                 Inl e \<Rightarrow> Inl e
               | Inr None \<Rightarrow> Inl KeyError
               | Inr (Some best_idx) \<Rightarrow>
                   select_columns (columns (completed ! best_idx)) (map p_name parameters) [])
            else Inr seed_configuration)
      else Inr seed_configuration)"

text \<open>
  The three nested loops of \<^verbatim>\<open>_get_next_trials\<close>; each gives the first perturbed
  configuration that is not in \<open>submitted\<close>, or \<open>None\<close> when it runs to its end.
\<close>

fun try_values :: "config \<Rightarrow> config list \<Rightarrow> string \<Rightarrow> pyval list \<Rightarrow> config option" where
  "try_values seed submitted name [] = None"
| "try_values seed submitted name (val # values) =
     (let new_params = dict_set seed name val
      in if \<not> in_submitted new_params submitted then Some new_params
         else try_values seed submitted name values)"

fun try_increase :: "LocalSearch \<Rightarrow> pyval parameter \<Rightarrow> bool list \<Rightarrow> error + config option" where
  "try_increase self param [] = Inr None"
| "try_increase self param (incr # incrs) =
     (case LocalSearch_perturb self (ls_seed_configuration self) param incr of
        Inl e \<Rightarrow> Inl e
      | Inr new_params \<Rightarrow>
          if \<not> in_submitted new_params (ls_submitted self) then Inr (Some new_params)
          else try_increase self param incrs)"

definition try_parameter :: "LocalSearch \<Rightarrow> ls_draws \<Rightarrow> pyval parameter \<Rightarrow> error + config option" where
  "try_parameter self draws param =
     (case param of
        Choice name rng \<Rightarrow>
          Inr (try_values (ls_seed_configuration self) (ls_submitted self) name (sample_range draws param))
      | _ \<Rightarrow> try_increase self param (sample_increase draws param))"

fun try_parameters :: "LocalSearch \<Rightarrow> ls_draws \<Rightarrow> pyval parameter list \<Rightarrow> error + config option" where
  "try_parameters self draws [] = Inr None"
| "try_parameters self draws (param # params) =
     (case try_parameter self draws param of
        Inl e \<Rightarrow> Inl e
      | Inr (Some new_params) \<Rightarrow> Inr (Some new_params)
      | Inr None \<Rightarrow> try_parameters self draws params)"

text \<open>\<^verbatim>\<open>[x] * n\<close> is empty for \<open>n \<le> 0\<close>.\<close>

definition LocalSearch_get_next_trials ::
  "pyval parameter list \<Rightarrow> results \<Rightarrow> bool \<Rightarrow> ls_draws \<Rightarrow> LocalSearch
     \<Rightarrow> error + (config suggestion list \<times> LocalSearch)" where
  "LocalSearch_get_next_trials parameters results lower_is_better draws self =
     (let self = self\<lparr>ls_count := ls_count self + 1\<rparr>
      in if ls_count self = 1 then
           Inr (replicate (nat (ls_repeat_trials self)) (Config (ls_seed_configuration self)),
                self\<lparr>ls_submitted := ls_submitted self @ [ls_seed_configuration self]\<rparr>)
         else
           (case reseed parameters results lower_is_better (ls_seed_configuration self) of
              Inl e \<Rightarrow> Inl e
            | Inr seed \<Rightarrow>
                (let self = self\<lparr>ls_seed_configuration := seed\<rparr>
                 in case try_parameters self draws (sample_parameters draws) of
                      Inl e \<Rightarrow> Inl e
                    | Inr (Some new_params) \<Rightarrow>
                        Inr (replicate (nat (ls_repeat_trials self)) (Config new_params),
                             self\<lparr>ls_submitted := ls_submitted self @ [new_params]\<rparr>)
                    | Inr None \<Rightarrow> Inr (replicate (nat (ls_repeat_trials self)) Stop, self))))"

text \<open>\<^verbatim>\<open>get_suggestion\<close>; \<^verbatim>\<open>pop()\<close> takes the last element and raises on an empty list.\<close>

definition LocalSearch_get_suggestion ::
  "pyval parameter list \<Rightarrow> results \<Rightarrow> bool \<Rightarrow> ls_draws \<Rightarrow> LocalSearch
     \<Rightarrow> error + (config suggestion \<times> LocalSearch)" where
  "LocalSearch_get_suggestion parameters results lower_is_better draws self =
     (case (if ls_next_trial self = []
            then (case LocalSearch_get_next_trials parameters results lower_is_better draws self of
                    Inl e \<Rightarrow> Inl e
                  | Inr (next_trial, self) \<Rightarrow> Inr (self\<lparr>ls_next_trial := next_trial\<rparr>))
            else Inr self) of
        Inl e \<Rightarrow> Inl e
      | Inr self \<Rightarrow>
          (if ls_next_trial self = [] then Inl IndexError
           else Inr (last (ls_next_trial self), self\<lparr>ls_next_trial := butlast (ls_next_trial self)\<rparr>)))"

text \<open>One call, with everything the caller and the random generator supply in one argument.\<close>

definition LocalSearch_call ::
  "pyval parameter list \<times> results \<times> bool \<times> ls_draws \<Rightarrow> LocalSearch
     \<Rightarrow> error + (config suggestion \<times> LocalSearch)" where
  "LocalSearch_call x self =
     (case x of (parameters, results, lower_is_better, draws) \<Rightarrow>
        LocalSearch_get_suggestion parameters results lower_is_better draws self)"

text \<open>
  The invariant of an instance with \<^verbatim>\<open>repeat_trials=1\<close> between two calls: the queue is
  empty, and nothing was submitted before the first call.
\<close>

definition ls_inv :: "LocalSearch \<Rightarrow> bool" where
  "ls_inv self \<longleftrightarrow> ls_next_trial self = [] \<and> ls_repeat_trials self = 1 \<and> 0 \<le> ls_count self
                  \<and> (ls_count self = 0 \<longrightarrow> ls_submitted self = [])"

text \<open>
  Every perturbation of a seed along one parameter, whatever the order in which a call
  tries them: each value of a categorical parameter, both directions of any other
  parameter. \<open>exhausted\<close> says that all of them, for all parameters, could be computed
  and have been submitted.
\<close>

definition perturbations :: "LocalSearch \<Rightarrow> config \<Rightarrow> pyval parameter \<Rightarrow> (error + config) list" where
  "perturbations self seed param =
     (case param of
        Choice name rng \<Rightarrow> map (\<lambda>val. Inr (dict_set seed name val)) rng
      | _ \<Rightarrow> map (LocalSearch_perturb self seed param) [True, False])"

definition exhausted :: "LocalSearch \<Rightarrow> config \<Rightarrow> pyval parameter list \<Rightarrow> bool" where
  "exhausted self seed parameters =
     list_all (\<lambda>param. list_all (\<lambda>x. case x of Inl e \<Rightarrow> False
                                          | Inr c \<Rightarrow> in_submitted c (ls_submitted self))
                           (perturbations self seed param)) parameters"

section \<open>Repeat\<close>

record 'a Repeat =
  rp_algorithm :: 'a
  rp_num_times :: int
  rp_queue :: "config suggestion list"
  rp_prev_completed :: int
  rp_wait_for_completion :: bool

definition Repeat_init :: "'a \<Rightarrow> int \<Rightarrow> bool \<Rightarrow> 'a Repeat" where
  "Repeat_init algorithm num_times wait_for_completion =
     \<lparr> rp_algorithm = algorithm, rp_num_times = num_times, rp_queue = [],
       rp_prev_completed = 0, rp_wait_for_completion = wait_for_completion \<rparr>"

text \<open>
  A row of the aggregated table handed to the wrapped algorithm: the parameter columns
  and \<^verbatim>\<open>Status\<close> the rows were grouped by, \<^verbatim>\<open>Objective\<close> (the renamed \<^verbatim>\<open>mean\<close>),
  \<^verbatim>\<open>count\<close> and \<^verbatim>\<open>varObjective\<close>.
\<close>

record aggregate_row =
  ag_columns :: config
  ag_Status :: string
  ag_Objective :: npfloat
  ag_count :: nat
  ag_varObjective :: npfloat

text \<open>
  The aggregations of pandas over the objectives of one group. All three skip NaN:
  \<^verbatim>\<open>count\<close> is the number of entries that are not NaN, \<^verbatim>\<open>mean\<close> their mean (NaN when
  there is none), \<^verbatim>\<open>var\<close> their sample variance, with divisor \<open>count - 1\<close> (NaN for
  fewer than two of them).
\<close>

definition group_count :: "npfloat list \<Rightarrow> nat" where
  "group_count xs = length (dropna xs)"

definition group_mean :: "npfloat list \<Rightarrow> npfloat" where
  "group_mean xs =
     (if dropna xs = [] then NaN else Fin (sum_list (dropna xs) / real (length (dropna xs))))"

definition group_var :: "npfloat list \<Rightarrow> npfloat" where
  "group_var xs =
     (if length (dropna xs) < 2 then NaN
      else Fin (sum_list (map (\<lambda>x. (x - sum_list (dropna xs) / real (length (dropna xs))) ^ 2) (dropna xs))
                / real (length (dropna xs) - 1)))"

text \<open>
  \<^verbatim>\<open>x['var'] / x['count']\<close>. A variance that is a number comes with a count of two at
  least; NaN divided by any count is NaN.
\<close>

definition var_over_count :: "npfloat \<Rightarrow> nat \<Rightarrow> npfloat" where
  "var_over_count v n = (case v of NaN \<Rightarrow> NaN | Fin x \<Rightarrow> if n = 0 then NaN else Fin (x / real n))"

text \<open>
  The key a row is grouped by: its values in the parameter columns and its status;
  \<^verbatim>\<open>KeyError\<close> for a name that is no column.
\<close>

definition row_key :: "string list \<Rightarrow> row \<Rightarrow> error + (pyval list \<times> string)" where
  "row_key names r =
     (case collect (map (\<lambda>n. case dict_get (columns r) n of None \<Rightarrow> Inl KeyError
                                   | Some v \<Rightarrow> Inr v) names) of
        Inl e \<Rightarrow> Inl e
      | Inr vs \<Rightarrow> Inr (vs, Status r))"

text \<open>
  \<^verbatim>\<open>groupby(...)\<close>: the distinct keys, each with the objectives of the rows of that key.
  pandas lists the groups in the order of their keys; the model lists them in the order
  in which they first occur in the table.
\<close>

definition first_seen :: "'a list \<Rightarrow> 'a list" where
  "first_seen xs = rev (remdups (rev xs))"

definition groupby :: "string list \<Rightarrow> results \<Rightarrow> error + ((pyval list \<times> string) \<times> npfloat list) list" where
  "groupby names rows =
     (case collect (map (row_key names) rows) of
        Inl e \<Rightarrow> Inl e
      | Inr keys \<Rightarrow>
          Inr (map (\<lambda>k. (k, map (\<lambda>kr. Objective (snd kr)) (filter (\<lambda>kr. fst kr = k) (zip keys rows))))
                 (first_seen keys)))"

text \<open>
  \<^verbatim>\<open>.agg(['mean', 'var', 'count']).loc[:, 'Objective'].reset_index()\<close> followed by
  \<^verbatim>\<open>assign\<close>, \<^verbatim>\<open>rename\<close> and \<^verbatim>\<open>drop\<close>, for one group.
\<close>

definition aggregate_group :: "string list \<Rightarrow> (pyval list \<times> string) \<times> npfloat list \<Rightarrow> aggregate_row" where
  "aggregate_group names g =
     \<lparr> ag_columns = zip names (fst (fst g)), ag_Status = snd (fst g),
       ag_Objective = group_mean (snd g), ag_count = group_count (snd g),
       ag_varObjective = var_over_count (group_var (snd g)) (group_count (snd g)) \<rparr>"

text \<open>The whole chain, ending in \<^verbatim>\<open>.query("count >= num_times")\<close>.\<close>

definition aggregate :: "pyval parameter list \<Rightarrow> results \<Rightarrow> int \<Rightarrow> error + aggregate_row list" where
  "aggregate parameters completed num_times =
     (case groupby (map p_name parameters) completed of
        Inl e \<Rightarrow> Inl e
      | Inr groups \<Rightarrow>
          Inr (filter (\<lambda>a. int (ag_count a) \<ge> num_times)
                 (map (aggregate_group (map p_name parameters)) groups)))"

text \<open>\<^verbatim>\<open>return self.queue.pop()\<close>.\<close>

definition queue_pop :: "'a Repeat \<Rightarrow> error + (config suggestion \<times> 'a Repeat)" where
  "queue_pop self =
     (if rp_queue self = [] then Inl IndexError
      else Inr (last (rp_queue self), self\<lparr>rp_queue := butlast (rp_queue self)\<rparr>))"

text \<open>
  The call of the wrapped algorithm with the aggregated table (\<^verbatim>\<open>None\<close> when there are
  no results), \<^verbatim>\<open>self.queue += [suggestion] * self.num_times\<close> and the final
  \<^verbatim>\<open>pop\<close>. The wrapped algorithm's \<^verbatim>\<open>get_suggestion\<close> is the argument \<open>inner\<close>.
\<close>

definition consult ::
  "(pyval parameter list \<Rightarrow> aggregate_row list option \<Rightarrow> bool \<Rightarrow> 'a \<Rightarrow> error + (config suggestion \<times> 'a))
     \<Rightarrow> pyval parameter list \<Rightarrow> aggregate_row list option \<Rightarrow> bool \<Rightarrow> 'a Repeat
     \<Rightarrow> error + (config suggestion \<times> 'a Repeat)" where
  "consult inner parameters aggregate_results lower_is_better self =
     (case inner parameters aggregate_results lower_is_better (rp_algorithm self) of
        Inl e \<Rightarrow> Inl e
      | Inr (suggestion, algorithm) \<Rightarrow>
          queue_pop (self\<lparr>rp_algorithm := algorithm,
                          rp_queue := rp_queue self @ replicate (nat (rp_num_times self)) suggestion\<rparr>))"

definition Repeat_get_suggestion ::
  "(pyval parameter list \<Rightarrow> aggregate_row list option \<Rightarrow> bool \<Rightarrow> 'a \<Rightarrow> error + (config suggestion \<times> 'a))
     \<Rightarrow> pyval parameter list \<Rightarrow> results option \<Rightarrow> bool \<Rightarrow> 'a Repeat
     \<Rightarrow> error + (config suggestion \<times> 'a Repeat)" where
  "Repeat_get_suggestion inner parameters results lower_is_better self =
     (if length (rp_queue self) = 0 then
        (case results of
           None \<Rightarrow> consult inner parameters None lower_is_better self
         | Some rs \<Rightarrow>
             if length rs > 0 then
               (let completed = completed_rows rs
                in if rp_wait_for_completion self
                      \<and> int (length completed) < rp_prev_completed self + rp_num_times self
                   then Inr (Wait, self)
                   else (let self = self\<lparr>rp_prev_completed := rp_prev_completed self + rp_num_times self\<rparr>
                         in case aggregate parameters completed (rp_num_times self) of
                              Inl e \<Rightarrow> Inl e
                            | Inr aggregate_results \<Rightarrow>
                                consult inner parameters (Some aggregate_results) lower_is_better self))
             else consult inner parameters None lower_is_better self)
      else queue_pop self)"

section \<open>Genetic\<close>

record Genetic =
  ge_mutation_rate :: real
  ge_max_num_trials :: "int option"
  ge_count :: int

definition Genetic_init :: "real \<Rightarrow> int option \<Rightarrow> Genetic" where
  "Genetic_init mutation_rate max_num_trials =
     \<lparr> ge_mutation_rate = mutation_rate, ge_max_num_trials = max_num_trials, ge_count = 0 \<rparr>"








section \<open>Calls with one argument\<close>





text \<open>
  In a sequence of answers, no configuration comes after a Stop (an exception may: it
  ends the sequence).
\<close>

fun is_config :: "error + 'c suggestion \<Rightarrow> bool" where
  "is_config (Inr (Config c)) = True"
| "is_config y = False"

fun stop_is_final :: "(error + 'c suggestion) list \<Rightarrow> bool" where
  "stop_is_final [] = True"
| "stop_is_final (y # ys) = ((y \<noteq> Inr Stop \<or> list_all (\<lambda>z. \<not> is_config z) ys) \<and> stop_is_final ys)"

section \<open>Concrete inputs\<close>

text \<open>Inputs at which the theorems below are evaluated.\<close>

definition first_of_range :: "pyval parameter \<Rightarrow> pyval" where
  "first_of_range p = (case p_range p of [] \<Rightarrow> Num 0 | v # vs \<Rightarrow> v)"

definition first_draws :: "nat \<Rightarrow> pyval parameter \<Rightarrow> pyval" where
  "first_draws c = first_of_range"

definition two_choices :: "pyval parameter list" where
  "two_choices = [Choice ''a'' [Num 1, Num 2], Choice ''b'' [Str ''x'', Str ''y'']]"

definition hp_example :: "pyval dict list" where
  "hp_example = [[(''a'', Num 1), (''b'', Str ''x'')], [(''a'', Num 2), (''b'', Str ''x'')], [(''a'', Num 1), (''b'', Str ''y'')]]"

definition hp_broken :: "pyval dict list" where
  "hp_broken = [[(''a'', Num 1), (''b'', Str ''x'')], [(''a'', Num 2)]]"

definition median_rule :: MedianStoppingRule where
  "median_rule = \<lparr> min_iterations = 0, min_trials = 1 \<rparr>"

definition mk_row :: "int \<Rightarrow> nat \<Rightarrow> npfloat \<Rightarrow> row" where
  "mk_row tid it obj = \<lparr> Trial_ID = tid, Status = ''INTERMEDIATE'', Iteration = it, Objective = obj, columns = [] \<rparr>"

definition table_keep :: results where
  "table_keep = [mk_row 1 1 (Fin 7), mk_row 2 1 (Fin 4), mk_row 3 1 (Fin 10), mk_row 1 2 (Fin 5),
                 mk_row 2 2 (Fin 3), mk_row 3 2 NaN]"

definition table_stop :: results where
  "table_stop = [mk_row 1 1 (Fin 5), mk_row 2 1 (Fin 1), mk_row 3 1 (Fin 2)]"

definition table_ties :: results where
  "table_ties = [mk_row 1 1 (Fin 5), mk_row 2 1 (Fin 3), mk_row 3 1 (Fin 5), mk_row 4 1 NaN,
                 mk_row 4 2 NaN]"


definition plain_draws :: "pyval parameter list \<Rightarrow> ls_draws" where
  "plain_draws parameters =
     \<lparr> sample_parameters = parameters, sample_range = p_range, sample_increase = (\<lambda>p. [True, False]) \<rparr>"

definition ls_example :: LocalSearch where
  "ls_example = LocalSearch_init [(''a'', Num 1), (''b'', Str ''x'')] [0.8, 1.2] 1"

definition ls_call_empty :: "pyval parameter list \<times> results \<times> bool \<times> ls_draws" where
  "ls_call_empty = (two_choices, [], True, plain_draws two_choices)"




section \<open>Properties of RandomSearch\<close>

lemma rs_first_call:
  assumes "0 < N" "0 < m"
  shows "RandomSearch_get_suggestion ps (rnd 0) (RandomSearch_init (Some (int N)) (int m))
         = (Config (sample_config ps (rnd 0)), rs_block ps rnd N m 0 1)"
  using assms by (simp add: RandomSearch_get_suggestion_def RandomSearch_init_def rs_block_def Let_def)

lemma rs_repeat_call:
  assumes "0 < r" "r < m" "q < N"
  shows "RandomSearch_get_suggestion ps d (rs_block ps rnd N m q r)
         = (Config (sample_config ps (rnd (q * m))), rs_block ps rnd N m q (Suc r))"
  using assms by (simp add: RandomSearch_get_suggestion_def rs_block_def Let_def)

lemma rs_next_call:
  assumes "0 < m" "Suc q < N"
  shows "RandomSearch_get_suggestion ps (rnd (Suc q * m)) (rs_block ps rnd N m q m)
         = (Config (sample_config ps (rnd (Suc q * m))), rs_block ps rnd N m (Suc q) 1)"
  using assms by (simp add: RandomSearch_get_suggestion_def rs_block_def Let_def)

lemma rs_after_block:
  assumes "0 < N" "0 < m" "q < N" "0 < r" "r \<le> m"
  shows "RandomSearch_after ps rnd (q * m + r) (RandomSearch_init (Some (int N)) (int m))
         = rs_block ps rnd N m q r"
  using assms
proof (induction q arbitrary: r)
  case 0
  then show ?case
  proof (induction r)
    case 0 then show ?case by simp
  next
    case (Suc r)
    show ?case
    proof (cases "r = 0")
      case True
      then show ?thesis using Suc.prems rs_first_call[of N m ps rnd] by simp
    next
      case False
      then have "RandomSearch_after ps rnd (0 * m + r) (RandomSearch_init (Some (int N)) (int m))
         = rs_block ps rnd N m 0 r" using Suc by simp
      then show ?thesis using False Suc.prems rs_repeat_call[of r m 0 N ps _ rnd] by simp
    qed
  qed
next
  case (Suc q)
  have prev: "RandomSearch_after ps rnd (q * m + m) (RandomSearch_init (Some (int N)) (int m))
         = rs_block ps rnd N m q m" using Suc by simp
  from Suc.prems show ?case
  proof (induction r)
    case 0 then show ?case by simp
  next
    case (Suc r)
    show ?case
    proof (cases "r = 0")
      case True
      then show ?thesis using Suc.prems prev rs_next_call[of m q N ps rnd] by (simp add: add.commute)
    next
      case False
      then have "RandomSearch_after ps rnd (Suc q * m + r) (RandomSearch_init (Some (int N)) (int m))
         = rs_block ps rnd N m (Suc q) r" using Suc by simp
      then show ?thesis using False Suc.prems rs_repeat_call[of r m "Suc q" N ps _ rnd] by simp
    qed
  qed
qed

lemma rs_cap_call:
  assumes "0 < m" "0 < N"
  shows "RandomSearch_get_suggestion ps (rnd (N * m)) (rs_block ps rnd N m (N - 1) m)
         = (Stop, rs_done ps rnd N m 0)"
  using assms by (simp add: RandomSearch_get_suggestion_def rs_block_def rs_done_def Let_def)

lemma rs_done_call:
  assumes "0 < m"
  shows "RandomSearch_get_suggestion ps (rnd (N * m + Suc k)) (rs_done ps rnd N m k)
         = (Stop, rs_done ps rnd N m (Suc k))"
  using assms by (simp add: RandomSearch_get_suggestion_def rs_done_def Let_def)

lemma rs_after_cap:
  assumes "0 < N" "0 < m"
  shows "RandomSearch_after ps rnd (N * m + Suc k) (RandomSearch_init (Some (int N)) (int m))
         = rs_done ps rnd N m k"
proof (induction k)
  case 0
  have "RandomSearch_after ps rnd ((N - 1) * m + m) (RandomSearch_init (Some (int N)) (int m))
         = rs_block ps rnd N m (N - 1) m"
    using assms by (intro rs_after_block) auto
  moreover have "(N - 1) * m + m = N * m" using assms by (cases N) auto
  ultimately show ?case using rs_cap_call[OF assms(2) assms(1), of ps rnd] by simp
next
  case (Suc k)
  then show ?case using rs_done_call[OF assms(2), of ps rnd N k] by simp
qed

lemma rs_answer_in_cap:
  assumes "0 < N" "0 < m" "c < N * m"
  shows "RandomSearch_answer ps rnd c (RandomSearch_init (Some (int N)) (int m))
         = Config (sample_config ps (rnd ((c div m) * m)))"
proof -
  let ?q = "c div m" and ?r = "c mod m"
  have c: "c = ?q * m + ?r" by simp
  have q: "?q < N" using assms by (simp add: less_mult_imp_div_less)
  show ?thesis
  proof (cases "?r = 0")
    case r0: True
    show ?thesis
    proof (cases "?q")
      case 0
      then have "c = 0" using r0 c by simp
      then show ?thesis using rs_first_call[OF assms(1,2), of ps rnd]
        by (simp add: RandomSearch_answer_def)
    next
      case (Suc q')
      then have c': "c = q' * m + m" using r0 c by (metis add.right_neutral mult_Suc add.commute)
      have "RandomSearch_after ps rnd (q' * m + m) (RandomSearch_init (Some (int N)) (int m))
         = rs_block ps rnd N m q' m" using assms q Suc by (intro rs_after_block) auto
      moreover have "Suc q' * m = c" using c' by simp
      ultimately show ?thesis using rs_next_call[of m q' N ps rnd] q Suc assms c'
        by (simp add: RandomSearch_answer_def add.commute)
    qed
  next
    case False
    then have r: "0 < ?r" "?r < m" using assms by auto
    have "RandomSearch_after ps rnd (?q * m + ?r) (RandomSearch_init (Some (int N)) (int m))
         = rs_block ps rnd N m ?q ?r" using assms q r by (intro rs_after_block) auto
    then show ?thesis using rs_repeat_call[OF r q, of ps "rnd c" rnd]
      by (simp add: RandomSearch_answer_def)
  qed
qed

lemma rs_answer_past_cap:
  assumes "0 < N" "0 < m" "N * m \<le> c"
  shows "RandomSearch_answer ps rnd c (RandomSearch_init (Some (int N)) (int m)) = Stop"
proof (cases "c = N * m")
  case True
  have "RandomSearch_after ps rnd ((N - 1) * m + m) (RandomSearch_init (Some (int N)) (int m))
         = rs_block ps rnd N m (N - 1) m"
    using assms by (intro rs_after_block) auto
  moreover have "(N - 1) * m + m = N * m" using assms by (cases N) auto
  ultimately show ?thesis using True rs_cap_call[OF assms(2) assms(1), of ps rnd]
    by (simp add: RandomSearch_answer_def)
next
  case False
  then obtain k where k: "c = N * m + Suc k" using assms(3)
    by (metis Suc_diff_Suc add_Suc_right le_add_diff_inverse le_neq_implies_less zero_less_diff)
  show ?thesis using rs_after_cap[OF assms(1,2), of ps rnd k] rs_done_call[OF assms(2), of ps rnd N k] k
    by (simp add: RandomSearch_answer_def)
qed

text \<open>
  C6 (amended). For \<^verbatim>\<open>RandomSearch(max_num_trials=N, repeat=m)\<close> with \<open>N \<ge> 1\<close> and
  \<open>m \<ge> 1\<close>, call number \<open>c\<close> (counted from 0) returns, while \<open>c < N * m\<close>, the
  configuration sampled at call \<open>(c div m) * m\<close>, the first call of its block of \<open>m\<close>
  calls: exactly \<open>N\<close> sampled configurations, each returned \<open>m\<close> times in a row
  unchanged, the next one sampled only then. Every later call returns Stop.
\<close>

theorem RandomSearch_sequence:
  assumes "0 < N" "0 < m"
  shows "RandomSearch_answer ps rnd c (RandomSearch_init (Some (int N)) (int m)) =
           (if c < N * m then Config (sample_config ps (rnd ((c div m) * m))) else Stop)"
  using rs_answer_in_cap[OF assms] rs_answer_past_cap[OF assms] by simp

theorem RandomSearch_sequence_witness:
  "(0::nat) < 2 \<and> RandomSearch_answer two_choices first_draws 3 (RandomSearch_init (Some 2) 2)
      = Config [(''a'', Num 1), (''b'', Str ''x'')]
   \<and> RandomSearch_answer two_choices first_draws 4 (RandomSearch_init (Some 2) 2) = Stop"
  using RandomSearch_sequence[of 2 2 two_choices first_draws 3]
        RandomSearch_sequence[of 2 2 two_choices first_draws 4]
  by (simp add: sample_config_def two_choices_def first_draws_def first_of_range_def)

text \<open>
  The claim as stated fails outside \<open>N \<ge> 1\<close>, \<open>m \<ge> 1\<close>: \<^verbatim>\<open>max_num_trials=0\<close> is falsy
  and gives the default cap \<open>2 ^ 32\<close>, so the first call returns a configuration where
  the claim has Stop; with \<^verbatim>\<open>repeat=0\<close> the first call returns a configuration too,
  where the claim has every sample returned zero times.
\<close>

theorem RandomSearch_sequence_counterexample:
  "RandomSearch_answer two_choices first_draws 0 (RandomSearch_init (Some 0) 1)
      = Config [(''a'', Num 1), (''b'', Str ''x'')]
   \<and> RandomSearch_answer two_choices first_draws 0 (RandomSearch_init (Some 1) 0)
      = Config [(''a'', Num 1), (''b'', Str ''x'')]"
  by (simp add: RandomSearch_answer_def RandomSearch_get_suggestion_def RandomSearch_init_def
      Let_def sample_config_def two_choices_def first_draws_def first_of_range_def)

section \<open>Properties of Iterate\<close>

lemma remdups_snoc: "remdups (ys @ [v]) = filter (\<lambda>x. x \<noteq> v) (remdups ys) @ [v]"
  by (induction ys) auto

lemma first_seen_Cons:
  "rev (remdups (rev (v # vs))) = v # filter (\<lambda>x. x \<noteq> v) (rev (remdups (rev vs)))"
  by (simp add: remdups_snoc rev_filter)

lemma add_unseen_fold:
  "fold (\<lambda>v prange. if v \<in> set prange then prange else prange @ [v]) vs acc
     = acc @ filter (\<lambda>x. x \<notin> set acc) (rev (remdups (rev vs)))"
proof (induction vs arbitrary: acc)
  case Nil
  then show ?case by simp
next
  case (Cons v vs)
  show ?case
  proof (cases "v \<in> set acc")
    case True
    then have "filter (\<lambda>x. x \<notin> set acc) (filter (\<lambda>x. x \<noteq> v) (rev (remdups (rev vs))))
             = filter (\<lambda>x. x \<notin> set acc) (rev (remdups (rev vs)))"
      by (auto intro: filter_cong)
    with True Cons show ?thesis by (simp only: first_seen_Cons fold_Cons comp_apply if_True filter.simps if_False not_True_eq_False not_not)
  next
    case False
    have "filter (\<lambda>x. x \<notin> set (acc @ [v])) (rev (remdups (rev vs)))
        = filter (\<lambda>x. x \<notin> set acc) (filter (\<lambda>x. x \<noteq> v) (rev (remdups (rev vs))))"
      by (auto intro: filter_cong)
    with False Cons[of "acc @ [v]"] show ?thesis
      by (simp only: first_seen_Cons fold_Cons comp_apply if_False filter.simps if_True append_assoc append_Cons append_Nil simp_thms)
  qed
qed

lemma collect_range_present:
  assumes "\<forall>hp\<in>set hps. dict_get hp k \<noteq> None"
  shows "collect_range k i hps acc =
           Inr (fold (\<lambda>v prange. if v \<in> set prange then prange else prange @ [v])
                  (List.map_filter (\<lambda>hp. dict_get hp k) hps) acc)"
  using assms
  by (induction hps arbitrary: i acc) (auto simp: List.map_filter_simps split: option.splits)

lemma collect_range_missing:
  assumes "\<exists>hp\<in>set hps. dict_get hp k = None"
  shows "\<exists>j<length hps. collect_range k i hps acc = Inl (Exception (not_found_message k (i + j)))
            \<and> dict_get (hps ! j) k = None \<and> (\<forall>j'<j. dict_get (hps ! j') k \<noteq> None)"
  using assms
proof (induction hps arbitrary: i acc)
  case Nil
  then show ?case by simp
next
  case (Cons hp hps)
  show ?case
  proof (cases "dict_get hp k")
    case None
    then show ?thesis by (intro exI[of _ 0]) simp
  next
    case (Some v)
    with Cons.prems have "\<exists>hp\<in>set hps. dict_get hp k = None" by auto
    from Cons.IH[OF this, of "Suc i" "if v \<in> set acc then acc else acc @ [v]"]
    obtain j where j: "j < length hps"
      "collect_range k (Suc i) hps (if v \<in> set acc then acc else acc @ [v])
         = Inl (Exception (not_found_message k (Suc i + j)))"
      "dict_get (hps ! j) k = None" "\<forall>j'<j. dict_get (hps ! j') k \<noteq> None" by blast
    show ?thesis
    proof (intro exI[of _ "Suc j"] conjI)
      show "\<forall>j'<Suc j. dict_get ((hp # hps) ! j') k \<noteq> None"
        using j(4) Some by (auto simp: nth_Cons split: nat.splits)
    qed (use j Some in auto)
  qed
qed

lemma derive_parameters_present:
  assumes "\<forall>k\<in>set keys. \<forall>hp\<in>set hps. dict_get hp k \<noteq> None"
  shows "derive_parameters keys hps acc =
           Inr (acc @ map (\<lambda>k. Choice k (rev (remdups (rev (List.map_filter (\<lambda>hp. dict_get hp k) hps))))) keys)"
  using assms
  by (induction keys arbitrary: acc) (simp_all add: collect_range_present add_unseen_fold)

lemma derive_parameters_missing:
  assumes "\<exists>k\<in>set keys. \<exists>hp\<in>set hps. dict_get hp k = None"
  shows "\<exists>k\<in>set keys. \<exists>i<length hps. derive_parameters keys hps acc = Inl (Exception (not_found_message k i))
            \<and> dict_get (hps ! i) k = None"
  using assms
proof (induction keys arbitrary: acc)
  case Nil
  then show ?case by simp
next
  case (Cons k keys)
  show ?case
  proof (cases "\<exists>hp\<in>set hps. dict_get hp k = None")
    case True
    from collect_range_missing[OF this, of 0 "[]"] show ?thesis by auto
  next
    case False
    then have ok: "collect_range k 0 hps [] = Inr (fold (\<lambda>v prange. if v \<in> set prange then prange else prange @ [v])
                  (List.map_filter (\<lambda>hp. dict_get hp k) hps) [])"
      by (intro collect_range_present) auto
    from False Cons.prems have "\<exists>k\<in>set keys. \<exists>hp\<in>set hps. dict_get hp k = None" by auto
    from Cons.IH[OF this] show ?thesis using ok by (simp del: fold_simps)
  qed
qed

text \<open>
  C10. \<^verbatim>\<open>Iterate.get_parameters\<close> on a non-empty list of configurations. When every
  configuration has every key of the first one, the result is, for each key of the
  first configuration in order, the categorical parameter of that name whose range
  lists the values of the key across the configurations, each once, in the order of
  their first occurrence (\<open>remdups\<close> keeps last occurrences, hence the two reversals).
  The values are of any type: they are only compared for equality. When some
  configuration lacks a key of the first one, the result is the exception whose message
  names such a key and the index of a configuration that lacks it.
\<close>

theorem Iterate_get_parameters_spec:
  assumes "it_hp_iter self = hp0 # rest"
  shows "((\<forall>k\<in>set (dict_keys hp0). \<forall>hp\<in>set (hp0 # rest). dict_get hp k \<noteq> None) \<longrightarrow>
            Iterate_get_parameters self =
              Inr (map (\<lambda>k. Choice k (rev (remdups (rev (List.map_filter (\<lambda>hp. dict_get hp k) (hp0 # rest))))))
                     (dict_keys hp0)))
       \<and> ((\<exists>k\<in>set (dict_keys hp0). \<exists>hp\<in>set (hp0 # rest). dict_get hp k = None) \<longrightarrow>
            (\<exists>k\<in>set (dict_keys hp0). \<exists>i<length (hp0 # rest).
               Iterate_get_parameters self = Inl (Exception (not_found_message k i))
               \<and> dict_get ((hp0 # rest) ! i) k = None))"
proof (intro conjI impI)
  assume "\<forall>k\<in>set (dict_keys hp0). \<forall>hp\<in>set (hp0 # rest). dict_get hp k \<noteq> None"
  from derive_parameters_present[OF this, of "[]"] assms
  show "Iterate_get_parameters self =
              Inr (map (\<lambda>k. Choice k (rev (remdups (rev (List.map_filter (\<lambda>hp. dict_get hp k) (hp0 # rest))))))
                     (dict_keys hp0))"
    by (simp add: Iterate_get_parameters_def py_index_def)
next
  assume "\<exists>k\<in>set (dict_keys hp0). \<exists>hp\<in>set (hp0 # rest). dict_get hp k = None"
  from derive_parameters_missing[OF this, of "[]"] assms
  show "\<exists>k\<in>set (dict_keys hp0). \<exists>i<length (hp0 # rest).
               Iterate_get_parameters self = Inl (Exception (not_found_message k i))
               \<and> dict_get ((hp0 # rest) ! i) k = None"
    by (simp add: Iterate_get_parameters_def py_index_def)
qed

theorem Iterate_get_parameters_spec_witness:
  "Iterate_get_parameters \<lparr>it_hp_iter = hp_example, it_count = 0\<rparr>
     = Inr [Choice ''a'' [Num 1, Num 2], Choice ''b'' [Str ''x'', Str ''y'']]
   \<and> Iterate_get_parameters \<lparr>it_hp_iter = hp_broken, it_count = 0\<rparr>
     = Inl (Exception ''Parameter b not found in list item 1.'')"
proof -
  have a: "it_hp_iter \<lparr>it_hp_iter = hp_example, it_count = 0\<rparr> = hd hp_example # tl hp_example"
    by (simp add: hp_example_def)
  have b: "it_hp_iter \<lparr>it_hp_iter = hp_broken, it_count = 0\<rparr> = hd hp_broken # tl hp_broken"
    by (simp add: hp_broken_def)
  have 1: "Iterate_get_parameters \<lparr>it_hp_iter = hp_example, it_count = 0\<rparr>
     = Inr [Choice ''a'' [Num 1, Num 2], Choice ''b'' [Str ''x'', Str ''y'']]"
    using Iterate_get_parameters_spec[OF a]
    by (simp add: hp_example_def dict_keys_def dict_get_def List.map_filter_simps)
  have 2: "Iterate_get_parameters \<lparr>it_hp_iter = hp_broken, it_count = 0\<rparr>
     = Inl (Exception ''Parameter b not found in list item 1.'')"
    using Iterate_get_parameters_spec[OF b]
    by (auto simp add: hp_broken_def dict_keys_def dict_get_def not_found_message_def digit_def less_Suc_eq)
  from 1 2 show ?thesis by simp
qed

section \<open>Properties of load\<close>

lemma Iterate_calls:
  assumes "it_count s = int k" "k + n \<le> length (it_hp_iter s)"
  shows "trace (\<lambda>u::unit. Iterate_get_suggestion) (replicate n ()) s
           = map (\<lambda>i. Inr (Config (it_hp_iter s ! i))) [k..<k + n]
       \<and> final_state (\<lambda>u::unit. Iterate_get_suggestion) (replicate n ()) s = Iterate_load (int (k + n)) s"
  using assms
proof (induction n arbitrary: s k)
  case 0
  then show ?case by (simp add: Iterate_load_def)
next
  case (Suc n)
  let ?s' = "s\<lparr>it_count := it_count s + 1\<rparr>"
  have step: "Iterate_get_suggestion s = Inr (Config (it_hp_iter s ! k), ?s')"
    using Suc.prems by (simp add: Iterate_get_suggestion_def py_index_def Let_def)
  have "it_count ?s' = int (Suc k)" "Suc k + n \<le> length (it_hp_iter ?s')"
    using Suc.prems by simp_all
  from Suc.IH[OF this] step Suc.prems show ?case
    by (simp add: upt_conv_Cons Iterate_load_def del: upt_Suc)
qed

lemma Iterate_init_fresh:
  "Iterate_init hp = Inr s \<Longrightarrow> s = \<lparr>it_hp_iter = hp, it_count = 0\<rparr>"
  by (auto simp: Iterate_init_def Let_def split: sum.splits)

text \<open>
  C3 (amended). \<^verbatim>\<open>load\<close> is idempotent, both the default of \<^verbatim>\<open>Algorithm\<close> and the
  override of \<^verbatim>\<open>Iterate\<close>. The default, which every class but \<^verbatim>\<open>Iterate\<close> inherits,
  leaves the instance as it is. For \<^verbatim>\<open>Iterate\<close>, \<open>k\<close> calls of \<^verbatim>\<open>get_suggestion\<close> on a
  fresh instance over at least \<open>k\<close> configurations return the first \<open>k\<close>
  configurations and leave the instance in the state \<^verbatim>\<open>load(k)\<close> puts a fresh one in.
\<close>

theorem load_resume:
  "Algorithm_load n (Algorithm_load n (alg :: 'self)) = Algorithm_load n alg
   \<and> Algorithm_load n alg = alg
   \<and> Iterate_load n (Iterate_load n it) = Iterate_load n it
   \<and> (Iterate_init hp_iter = Inr fresh \<and> k \<le> length hp_iter \<longrightarrow>
        trace (\<lambda>u::unit. Iterate_get_suggestion) (replicate k ()) fresh
           = map (\<lambda>i. Inr (Config (hp_iter ! i))) [0..<k]
        \<and> final_state (\<lambda>u::unit. Iterate_get_suggestion) (replicate k ()) fresh
           = Iterate_load (int k) fresh)"
proof -
  have "trace (\<lambda>u::unit. Iterate_get_suggestion) (replicate k ()) fresh
           = map (\<lambda>i. Inr (Config (hp_iter ! i))) [0..<k]
        \<and> final_state (\<lambda>u::unit. Iterate_get_suggestion) (replicate k ()) fresh
           = Iterate_load (int k) fresh"
    if "Iterate_init hp_iter = Inr fresh" "k \<le> length hp_iter"
    using Iterate_calls[of fresh 0 k] that Iterate_init_fresh[OF that(1)] by simp
  then show ?thesis by (simp add: Algorithm_load_def Iterate_load_def)
qed

theorem load_resume_witness:
  "Iterate_init [[(''a'', Num 1)], [(''a'', Num 2)]] = Inr \<lparr>it_hp_iter = [[(''a'', Num 1)], [(''a'', Num 2)]], it_count = 0\<rparr>
   \<and> trace (\<lambda>u::unit. Iterate_get_suggestion) (replicate 1 ()) \<lparr>it_hp_iter = [[(''a'', Num 1)], [(''a'', Num 2)]], it_count = 0\<rparr>
       = [Inr (Config [(''a'', Num 1)])]
   \<and> final_state (\<lambda>u::unit. Iterate_get_suggestion) (replicate 1 ()) \<lparr>it_hp_iter = [[(''a'', Num 1)], [(''a'', Num 2)]], it_count = 0\<rparr>
       = \<lparr>it_hp_iter = [[(''a'', Num 1)], [(''a'', Num 2)]], it_count = 1\<rparr>"
proof -
  have i: "Iterate_init [[(''a'', Num 1)], [(''a'', Num 2)]] = Inr \<lparr>it_hp_iter = [[(''a'', Num 1)], [(''a'', Num 2)]], it_count = 0\<rparr>"
    by (simp add: Iterate_init_def Iterate_get_parameters_def py_index_def dict_keys_def dict_get_def Let_def)
  show ?thesis
    using i load_resume[where hp_iter = "[[(''a'', Num 1)], [(''a'', Num 2)]]" and k = 1
        and fresh = "\<lparr>it_hp_iter = [[(''a'', Num 1)], [(''a'', Num 2)]], it_count = 0\<rparr>"]
    by (simp add: Iterate_load_def Algorithm_load_def Iterate_get_suggestion_def py_index_def)
qed

text \<open>
  The claim as stated fails for the classes with the default \<^verbatim>\<open>load\<close>: after
  \<^verbatim>\<open>load(1)\<close> a fresh \<^verbatim>\<open>RandomSearch(max_num_trials=1)\<close> returns a configuration, after
  one call of \<^verbatim>\<open>get_suggestion\<close> it returns Stop.
\<close>

theorem load_resume_counterexample:
  "fst (RandomSearch_get_suggestion two_choices first_of_range
          (Algorithm_load 1 (RandomSearch_init (Some 1) 1))) = Config [(''a'', Num 1), (''b'', Str ''x'')]
   \<and> fst (RandomSearch_get_suggestion two_choices first_of_range
          (snd (RandomSearch_get_suggestion two_choices first_of_range (RandomSearch_init (Some 1) 1)))) = Stop"
  by (simp add: RandomSearch_get_suggestion_def RandomSearch_init_def Algorithm_load_def Let_def sample_config_def two_choices_def first_of_range_def)

section \<open>Properties of get\_best\_result\<close>

lemma fold_min_real: "fold min vs (v::real) \<in> set (v # vs) \<and> (\<forall>x\<in>set (v # vs). fold min vs v \<le> x)"
proof (induction vs arbitrary: v)
  case Nil then show ?case by simp
next
  case (Cons a vs)
  from Cons[of "min a v"] show ?case by (auto simp: min_def split: if_splits)
qed

lemma fold_max_real: "fold max vs (v::real) \<in> set (v # vs) \<and> (\<forall>x\<in>set (v # vs). x \<le> fold max vs v)"
proof (induction vs arbitrary: v)
  case Nil then show ?case by simp
next
  case (Cons a vs)
  from Cons[of "max a v"] show ?case by (auto simp: max_def split: if_splits)
qed

lemma set_dropna: "set (dropna xs) = {x. Fin x \<in> set xs}"
  by (induction xs rule: dropna.induct) auto

lemma series_min_Fin:
  assumes "series_min xs = Fin m"
  shows "Fin m \<in> set xs \<and> (\<forall>x. Fin x \<in> set xs \<longrightarrow> m \<le> x)"
proof -
  from assms obtain v vs where d: "dropna xs = v # vs" and m: "m = fold min vs v"
    by (auto simp: series_min_def split: list.splits)
  from fold_min_real[of vs v] d m set_dropna[of xs] show ?thesis by auto
qed

lemma series_max_Fin:
  assumes "series_max xs = Fin m"
  shows "Fin m \<in> set xs \<and> (\<forall>x. Fin x \<in> set xs \<longrightarrow> x \<le> m)"
proof -
  from assms obtain v vs where d: "dropna xs = v # vs" and m: "m = fold max vs v"
    by (auto simp: series_max_def split: list.splits)
  from fold_max_real[of vs v] d m set_dropna[of xs] show ?thesis by auto
qed

lemma series_min_NaN: "series_min xs = NaN \<longleftrightarrow> (\<forall>x. Fin x \<notin> set xs)"
  using set_dropna[of xs] by (auto simp: series_min_def split: list.splits)

lemma series_max_NaN: "series_max xs = NaN \<longleftrightarrow> (\<forall>x. Fin x \<notin> set xs)"
  using set_dropna[of xs] by (auto simp: series_max_def split: list.splits)

lemma first_position:
  assumes "y \<in> set xs"
  shows "length (takeWhile (\<lambda>x. x \<noteq> y) xs) < length xs \<and> xs ! length (takeWhile (\<lambda>x. x \<noteq> y) xs) = y"
  using assms by (induction xs) auto

lemma idxmin_Some:
  assumes "idxmin xs = Inr (Some i)"
  shows "i < length xs \<and> (\<exists>m. xs ! i = Fin m \<and> (\<forall>x. Fin x \<in> set xs \<longrightarrow> m \<le> x))"
proof -
  from assms obtain m where m: "series_min xs = Fin m" and i: "i = length (takeWhile (\<lambda>x. x \<noteq> Fin m) xs)"
    by (auto simp: idxmin_def split: if_splits npfloat.splits)
  from series_min_Fin[OF m] first_position[of "Fin m" xs] i show ?thesis by auto
qed

lemma idxmax_Some:
  assumes "idxmax xs = Inr (Some i)"
  shows "i < length xs \<and> (\<exists>m. xs ! i = Fin m \<and> (\<forall>x. Fin x \<in> set xs \<longrightarrow> x \<le> m))"
proof -
  from assms obtain m where m: "series_max xs = Fin m" and i: "i = length (takeWhile (\<lambda>x. x \<noteq> Fin m) xs)"
    by (auto simp: idxmax_def split: if_splits npfloat.splits)
  from series_max_Fin[OF m] first_position[of "Fin m" xs] i show ?thesis by auto
qed

lemma idxmin_cases:
  "idxmin xs = (if xs = [] then Inl ValueError
                else if \<forall>x. Fin x \<notin> set xs then Inr None
                else Inr (Some (length (takeWhile (\<lambda>x. x \<noteq> series_min xs) xs))))"
  using series_min_NaN[of xs] by (auto simp: idxmin_def split: npfloat.splits)

lemma idxmax_cases:
  "idxmax xs = (if xs = [] then Inl ValueError
                else if \<forall>x. Fin x \<notin> set xs then Inr None
                else Inr (Some (length (takeWhile (\<lambda>x. x \<noteq> series_max xs) xs))))"
  using series_max_NaN[of xs] by (auto simp: idxmax_def split: npfloat.splits)

lemma get_best_result_all_nan:
  assumes "results \<noteq> []" "\<forall>r\<in>set results. Objective r = NaN"
  shows "get_best_result parameters results lower_is_better = Inr []"
proof -
  have "\<forall>x. Fin x \<notin> set (map Objective results)" using assms(2) by auto
  then show ?thesis using assms(1) by (simp add: get_best_result_def idxmin_cases idxmax_cases)
qed

lemma get_best_result_finite:
  assumes "\<exists>r\<in>set results. Objective r \<noteq> NaN"
  shows "\<exists>i<length results. \<exists>m. Objective (results ! i) = Fin m
           \<and> (\<forall>r\<in>set results. \<forall>x. Objective r = Fin x \<longrightarrow> (if lower_is_better then m \<le> x else x \<le> m))
           \<and> get_best_result parameters results lower_is_better
               = Inr (filter (\<lambda>kv. fst kv \<noteq> ''Status'') (to_dict (results ! i)))"
proof -
  from assms obtain y where y: "Fin y \<in> set (map Objective results)"
    by (metis npfloat.exhaust image_eqI list.set_map)
  then have ne: "results \<noteq> []" by auto
  have pop: "dict_pop (to_dict r) ''Status'' = Inr (filter (\<lambda>kv. fst kv \<noteq> ''Status'') (to_dict r))" for r
    by (simp add: dict_pop_def to_dict_def dict_keys_def)
  show ?thesis
  proof (cases lower_is_better)
    case True
    have "\<not> (\<forall>x. Fin x \<notin> set (map Objective results))" using y by blast
    with ne have "\<exists>i. idxmin (map Objective results) = Inr (Some i)"
      by (simp only: idxmin_cases) simp
    then obtain i where i: "idxmin (map Objective results) = Inr (Some i)" ..
    from idxmin_Some[OF i] show ?thesis using True i pop
      by (auto simp: get_best_result_def intro!: exI[of _ i]) (metis imageI)
  next
    case False
    have "\<not> (\<forall>x. Fin x \<notin> set (map Objective results))" using y by blast
    with ne have "\<exists>i. idxmax (map Objective results) = Inr (Some i)"
      by (simp only: idxmax_cases) simp
    then obtain i where i: "idxmax (map Objective results) = Inr (Some i)" ..
    from idxmax_Some[OF i] show ?thesis using False i pop
      by (auto simp: get_best_result_def intro!: exI[of _ i]) (metis imageI)
  qed
qed

text \<open>
  C5. On a table without rows \<^verbatim>\<open>idxmin\<close> (\<^verbatim>\<open>idxmax\<close>) raises, and \<^verbatim>\<open>get_best_result\<close>
  with it: the warning and the empty mapping are reached only for a table that has
  rows, all of them with a NaN objective (\<open>get_best_result_all_nan\<close>). With a row whose
  objective is a number, the result is a row of least (greatest) objective without its
  \<^verbatim>\<open>Status\<close> (\<open>get_best_result_finite\<close>).
\<close>

theorem get_best_result_empty:
  "get_best_result two_choices [] True = Inl ValueError \<and> get_best_result two_choices [] False = Inl ValueError"
  by (simp add: get_best_result_def idxmin_def idxmax_def)

section \<open>Properties of MedianStoppingRule\<close>

lemma fold_max_ge: "(v::nat) \<le> fold max vs v \<and> (\<forall>x\<in>set vs. x \<le> fold max vs v)"
proof (induction vs arbitrary: v)
  case Nil then show ?case by simp
next
  case (Cons a vs)
  from Cons[of "max a v"] show ?case by (auto simp: max_def split: if_splits)
qed

lemma iteration_max_ge:
  "iteration_max xs = Some m \<Longrightarrow> x \<in> set xs \<Longrightarrow> x \<le> m"
  using fold_max_ge by (auto simp: iteration_max_def split: list.splits)

lemma iteration_max_nonempty: "xs \<noteq> [] \<Longrightarrow> \<exists>m. iteration_max xs = Some m"
  by (auto simp: iteration_max_def split: list.splits)

lemma series_min_Fin_nonempty: "series_min xs = Fin x \<Longrightarrow> xs \<noteq> []"
  by (auto simp: series_min_def)

lemma series_max_Fin_nonempty: "series_max xs = Fin x \<Longrightarrow> xs \<noteq> []"
  by (auto simp: series_max_def)

lemma trial_obj_val_rows:
  "trial_obj_val results lib t = Fin x \<Longrightarrow> rows_of_trial results t \<noteq> []"
  by (auto simp: trial_obj_val_def series_min_def series_max_def split: if_splits)

lemma other_trial_ids_rows:
  "u \<in> set (other_trial_ids results t) \<Longrightarrow> rows_of_trial results u \<noteq> []"
  by (auto simp: other_trial_ids_def rows_of_trial_def filter_empty_conv)

lemma fold_max_in: "fold max vs (v::nat) \<in> set (v # vs)"
proof (induction vs arbitrary: v)
  case Nil then show ?case by simp
next
  case (Cons a vs)
  from Cons[of "max a v"] show ?case by (auto simp: max_def split: if_splits)
qed

lemma iteration_max_in: "iteration_max xs = Some m \<Longrightarrow> m \<in> set xs"
  using fold_max_in by (auto simp: iteration_max_def split: list.splits)

lemma iteration_below_iff:
  assumes "rows \<noteq> []"
  shows "iteration_below (iteration_max (map Iteration rows)) k \<longleftrightarrow> \<not> (\<exists>r\<in>set rows. k \<le> int (Iteration r))"
proof -
  obtain m where m: "iteration_max (map Iteration rows) = Some m"
    using iteration_max_nonempty[of "map Iteration rows"] assms by auto
  from iteration_max_in[OF m] obtain r0 where r0: "r0 \<in> set rows" "Iteration r0 = m" by auto
  have le: "Iteration r \<le> m" if "r \<in> set rows" for r
    using iteration_max_ge[OF m, of "Iteration r"] that by simp
  show ?thesis
  proof
    assume "iteration_below (iteration_max (map Iteration rows)) k"
    then have "int m < k" by (simp add: m iteration_below_def)
    then show "\<not> (\<exists>r\<in>set rows. k \<le> int (Iteration r))" using le by fastforce
  next
    assume "\<not> (\<exists>r\<in>set rows. k \<le> int (Iteration r))"
    then have "int m < k" using r0 by fastforce
    then show "iteration_below (iteration_max (map Iteration rows)) k" by (simp add: m iteration_below_def)
  qed
qed

lemma spec_reached_rows:
  "spec_reached results k tid \<longleftrightarrow> (\<exists>r\<in>set (rows_of_trial results tid). k \<le> int (Iteration r))"
  by (auto simp: spec_reached_def rows_of_trial_def)

lemma comparison_val_eq:
  assumes "rows_of_trial results u \<noteq> []"
  shows "comparison_val self results lib u =
           (if spec_reached results (min_iterations self) u then Some (trial_obj_val results lib u) else None)"
proof -
  obtain m where m: "iteration_max (map Iteration (rows_of_trial results u)) = Some m"
    using iteration_max_nonempty[of "map Iteration (rows_of_trial results u)"] assms by auto
  have f: "filter (\<lambda>r. Iteration r \<le> m) (rows_of_trial results u) = rows_of_trial results u"
    using iteration_max_ge[OF m] by (auto intro!: filter_True)
  have b: "iteration_below (Some m) (min_iterations self) \<longleftrightarrow> \<not> spec_reached results (min_iterations self) u"
    using iteration_below_iff[OF assms, of "min_iterations self"] by (simp add: m spec_reached_rows)
  show ?thesis
    by (simp add: comparison_val_def Let_def m f b trial_obj_val_def)
qed

lemma map_filter_if:
  assumes "\<forall>u\<in>set ids. f u = (if P u then Some (g u) else None)"
  shows "List.map_filter f ids = map g (filter P ids)"
  using assms by (induction ids) (simp_all add: List.map_filter_simps)

lemma comparison_vals_eq:
  "comparison_vals self results lib t =
     map (trial_obj_val results lib) (filter (spec_reached results (min_iterations self)) (other_trial_ids results t))"
  unfolding comparison_vals_def
  by (rule map_filter_if) (simp add: comparison_val_eq other_trial_ids_rows)

lemma set_numbers: "set [y. Fin y \<leftarrow> objs] = {y. Fin y \<in> set objs}"
proof (induction objs)
  case Nil then show ?case by simp
next
  case (Cons z objs)
  then show ?case by (cases z) auto
qed

lemma series_min_spec_best: "series_min objs = spec_best True objs"
proof (cases "series_min objs")
  case NaN
  then show ?thesis using series_min_NaN[of objs] set_numbers[of objs]
    by (simp add: spec_best_def flip: set_empty)
next
  case (Fin m)
  from series_min_Fin[OF Fin] have m: "Fin m \<in> set objs" "\<forall>x. Fin x \<in> set objs \<longrightarrow> m \<le> x" by auto
  define ns where "ns = [y. Fin y \<leftarrow> objs]"
  have "set ns = {y. Fin y \<in> set objs}" unfolding ns_def by (rule set_numbers)
  with m have "m \<in> set ns" "\<forall>x\<in>set ns. m \<le> x" by simp_all
  then have "Min (set ns) = m" by (intro Min_eqI) simp_all
  then have "Min (set [y. Fin y \<leftarrow> objs]) = m" unfolding ns_def .
  moreover have "[y. Fin y \<leftarrow> objs] \<noteq> []" using m(1) set_numbers[of objs] by (auto simp flip: set_empty)
  ultimately show ?thesis using Fin by (simp add: spec_best_def)
qed

lemma series_max_spec_best: "series_max objs = spec_best False objs"
proof (cases "series_max objs")
  case NaN
  then show ?thesis using series_max_NaN[of objs] set_numbers[of objs]
    by (simp add: spec_best_def flip: set_empty)
next
  case (Fin m)
  from series_max_Fin[OF Fin] have m: "Fin m \<in> set objs" "\<forall>x. Fin x \<in> set objs \<longrightarrow> x \<le> m" by auto
  define ns where "ns = [y. Fin y \<leftarrow> objs]"
  have "set ns = {y. Fin y \<in> set objs}" unfolding ns_def by (rule set_numbers)
  with m have "m \<in> set ns" "\<forall>x\<in>set ns. x \<le> m" by simp_all
  then have "Max (set ns) = m" by (intro Max_eqI) simp_all
  then have "Max (set [y. Fin y \<leftarrow> objs]) = m" unfolding ns_def .
  moreover have "[y. Fin y \<leftarrow> objs] \<noteq> []" using m(1) set_numbers[of objs] by (auto simp flip: set_empty)
  ultimately show ?thesis using Fin by (simp add: spec_best_def)
qed

lemma objectives_of_trial: "spec_objectives results tid = map Objective (rows_of_trial results tid)"
  unfolding spec_objectives_def by (induction results) (simp_all add: rows_of_trial_def)

lemma trial_obj_val_spec_best:
  "trial_obj_val results lib tid = spec_best lib (spec_objectives results tid)"
  by (simp add: trial_obj_val_def objectives_of_trial series_min_spec_best series_max_spec_best)

lemma numbers_dropna: "[y. Fin y \<leftarrow> zs] = dropna zs"
  by (induction zs rule: dropna.induct) simp_all

lemma dropna_filter:
  "dropna zs = map (\<lambda>z. case z of Fin y \<Rightarrow> y | NaN \<Rightarrow> 0) (filter (\<lambda>z. z \<noteq> NaN) zs)"
  by (induction zs rule: dropna.induct) simp_all

lemma dropna_mset:
  assumes "mset xs = mset ys"
  shows "mset (dropna xs) = mset (dropna ys)"
  unfolding dropna_filter by (simp add: assms)

lemma spec_median_mset:
  assumes "mset xs = mset ys"
  shows "spec_median xs = spec_median ys"
proof -
  have "sort xs = sort ys" using assms by (intro properties_for_sort) simp_all
  moreover have "length xs = length ys" using assms by (rule mset_eq_length)
  ultimately show ?thesis by (simp add: spec_median_def)
qed

lemma nanmedian_spec_median:
  "nanmedian zs = (if dropna zs = [] then NaN else Fin (spec_median (dropna zs)))"
proof -
  have "sort (dropna zs) = [] \<longleftrightarrow> dropna zs = []"
    by (metis length_sort length_0_conv)
  then show ?thesis by (simp add: nanmedian_def spec_median_def Let_def)
qed

lemma reached_ids_mset:
  assumes "distinct others" "set others = {u. u \<noteq> t \<and> spec_reached results k u}"
  shows "mset (filter (spec_reached results k) (other_trial_ids results t)) = mset others"
proof -
  have "distinct (filter (spec_reached results k) (other_trial_ids results t))"
    by (simp add: other_trial_ids_def)
  moreover have "set (filter (spec_reached results k) (other_trial_ids results t)) = set others"
    unfolding assms(2) by (auto simp: other_trial_ids_def spec_reached_def)
  ultimately show ?thesis using assms(1) by (simp only: set_eq_iff_mset_eq_distinct)
qed

lemma should_trial_stop_general:
  assumes "spec_reached results (min_iterations self) t"
      and "distinct others" "set others = {u. u \<noteq> t \<and> spec_reached results (min_iterations self) u}"
      and "min_trials self \<le> int (length others)"
      and "spec_best lib (spec_objectives results t) = Fin x"
  shows "should_trial_stop self t results lib \<longleftrightarrow>
           spec_comparison results lib others \<noteq> []
           \<and> (if lib then spec_median (spec_comparison results lib others) < x
                else x < spec_median (spec_comparison results lib others))"
proof -
  let ?best = "\<lambda>tid. spec_best lib (spec_objectives results tid)"
  let ?cv = "comparison_vals self results lib t"
  let ?ids = "filter (spec_reached results (min_iterations self)) (other_trial_ids results t)"
  have tv: "trial_obj_val results lib t = Fin x" using assms(5) by (simp add: trial_obj_val_spec_best)
  have rows: "rows_of_trial results t \<noteq> []" using assms(1) by (auto simp: spec_reached_rows)
  then have ne: "results \<noteq> []" by (auto simp: rows_of_trial_def)
  have nb: "\<not> iteration_below (iteration_max (map Iteration (rows_of_trial results t))) (min_iterations self)"
    using iteration_below_iff[OF rows, of "min_iterations self"] assms(1) by (simp add: spec_reached_rows)
  have "map (trial_obj_val results lib) ?ids = map ?best ?ids"
    by (intro map_cong refl trial_obj_val_spec_best)
  then have cv: "?cv = map ?best ?ids" by (simp only: comparison_vals_eq)
  have ms: "mset ?cv = mset (map ?best others)"
    unfolding cv using reached_ids_mset[OF assms(2,3)] by simp
  have "length ?cv = length (map ?best others)" using ms by (rule mset_eq_length)
  then have len: "length ?cv = length others" by simp
  have dm: "mset (dropna ?cv) = mset (spec_comparison results lib others)"
    unfolding spec_comparison_def numbers_dropna using ms by (rule dropna_mset)
  then have e: "dropna ?cv = [] \<longleftrightarrow> spec_comparison results lib others = []"
    by (metis mset_zero_iff)
  have md: "spec_median (dropna ?cv) = spec_median (spec_comparison results lib others)"
    using dm by (rule spec_median_mset)
  have l1: "\<not> int (length ?cv) < min_trials self" using len assms(4) by simp
  have "should_trial_stop self t results lib
          = (if lib then fl_greater (Fin x) (nanmedian ?cv) else fl_less (Fin x) (nanmedian ?cv))"
    using ne nb tv l1 by (cases lib) (simp_all add: should_trial_stop_def Let_def)
  also have "nanmedian ?cv = (if spec_comparison results lib others = [] then NaN
                                else Fin (spec_median (spec_comparison results lib others)))"
    by (simp only: nanmedian_spec_median e md)
  finally have "should_trial_stop self t results lib
          = (if lib then fl_greater (Fin x) (if spec_comparison results lib others = [] then NaN
                                else Fin (spec_median (spec_comparison results lib others)))
             else fl_less (Fin x) (if spec_comparison results lib others = [] then NaN
                                else Fin (spec_median (spec_comparison results lib others))))" .
  then show ?thesis
    by (cases lib; cases "spec_comparison results lib others = []")
       (simp_all only: fl_greater_def fl_less.simps if_True if_False simp_thms)
qed


lemma spec_reached_zero: "spec_reached results 0 tid \<longleftrightarrow> tid \<in> set (map Trial_ID results)"
  by (auto simp: spec_reached_def)

lemma should_trial_stop_two_others:
  assumes "min_iterations self = 0" "min_trials self = 1"
      and "set (map Trial_ID results) = {t, u, v}" "t \<noteq> u" "t \<noteq> v" "u \<noteq> v"
      and "spec_best True (spec_objectives results t) = Fin x"
      and "spec_best True (spec_objectives results u) = Fin a"
      and "spec_best True (spec_objectives results v) = Fin b"
  shows "should_trial_stop self t results True \<longleftrightarrow> spec_median [a, b] < x"
proof -
  have r: "spec_reached results (min_iterations self) w \<longleftrightarrow> w \<in> {t, u, v}" for w
    unfolding assms(1) spec_reached_zero assms(3) ..
  have 1: "spec_reached results (min_iterations self) t" by (simp add: r)
  have 2: "distinct [u, v]" using assms(6) by simp
  have 3: "set [u, v] = {w. w \<noteq> t \<and> spec_reached results (min_iterations self) w}"
    unfolding r using assms(4,5) by auto
  have 4: "min_trials self \<le> int (length [u, v])" by (simp add: assms(2))
  have c: "spec_comparison results True [u, v] = [a, b]"
    by (simp add: spec_comparison_def assms(8,9))
  show ?thesis
    using should_trial_stop_general[OF 1 2 3 4 assms(7)] by (simp add: c)
qed

text \<open>
  C1. Take a trial that is past \<open>min_iterations\<close> and whose best objective so far is the
  number \<open>x\<close>, and let \<open>others\<close> list, once each and in any order, the trials other than
  it that are past \<open>min_iterations\<close>, at least \<open>min_trials\<close> of them. Then the trial is
  stopped exactly when one of their best objectives is a number and \<open>x\<close> is strictly
  worse than the median of those that are numbers: greater when lower is better, less
  otherwise. In particular, with \<^verbatim>\<open>min_iterations=0\<close>, \<^verbatim>\<open>min_trials=1\<close>, lower is better and
  exactly two other trials in the table, a trial whose best objective is 5 is not
  stopped when theirs are 3 and 10, and is stopped when theirs are 1 and 2.
\<close>

theorem should_trial_stop_median:
  "(spec_reached results (min_iterations self) t
      \<and> distinct others
      \<and> set others = {u. u \<noteq> t \<and> spec_reached results (min_iterations self) u}
      \<and> min_trials self \<le> int (length others)
      \<and> spec_best lib (spec_objectives results t) = Fin x
    \<longrightarrow> (should_trial_stop self t results lib \<longleftrightarrow>
           spec_comparison results lib others \<noteq> []
           \<and> (if lib then spec_median (spec_comparison results lib others) < x
                else x < spec_median (spec_comparison results lib others))))
   \<and> (min_iterations self = 0 \<and> min_trials self = 1
      \<and> set (map Trial_ID results) = {t, u, v} \<and> t \<noteq> u \<and> t \<noteq> v \<and> u \<noteq> v
      \<and> spec_best True (spec_objectives results t) = Fin 5
      \<and> spec_best True (spec_objectives results u) = Fin a
      \<and> spec_best True (spec_objectives results v) = Fin b
    \<longrightarrow> (a = 3 \<and> b = 10 \<longrightarrow> \<not> should_trial_stop self t results True)
       \<and> (a = 1 \<and> b = 2 \<longrightarrow> should_trial_stop self t results True))"
proof (intro conjI impI)
  assume "spec_reached results (min_iterations self) t
      \<and> distinct others
      \<and> set others = {u. u \<noteq> t \<and> spec_reached results (min_iterations self) u}
      \<and> min_trials self \<le> int (length others)
      \<and> spec_best lib (spec_objectives results t) = Fin x"
  then show "should_trial_stop self t results lib \<longleftrightarrow>
           spec_comparison results lib others \<noteq> []
           \<and> (if lib then spec_median (spec_comparison results lib others) < x
                else x < spec_median (spec_comparison results lib others))"
    using should_trial_stop_general[of results self t others lib x] by blast
next
  assume h: "min_iterations self = 0 \<and> min_trials self = 1
      \<and> set (map Trial_ID results) = {t, u, v} \<and> t \<noteq> u \<and> t \<noteq> v \<and> u \<noteq> v
      \<and> spec_best True (spec_objectives results t) = Fin 5
      \<and> spec_best True (spec_objectives results u) = Fin a
      \<and> spec_best True (spec_objectives results v) = Fin b"
  then have e: "should_trial_stop self t results True \<longleftrightarrow> spec_median [a, b] < 5"
    using should_trial_stop_two_others[of self results t u v 5 a b] by blast
  {
    assume "a = 3 \<and> b = 10"
    then show "\<not> should_trial_stop self t results True"
      unfolding e by (simp add: spec_median_def)
  }
  {
    assume "a = 1 \<and> b = 2"
    then show "should_trial_stop self t results True"
      unfolding e by (simp add: spec_median_def)
  }
qed

theorem should_trial_stop_median_witness:
  "spec_best True (spec_objectives table_keep 1) = Fin 5
   \<and> spec_best True (spec_objectives table_keep 2) = Fin 3
   \<and> spec_best True (spec_objectives table_keep 3) = Fin 10
   \<and> \<not> should_trial_stop median_rule 1 table_keep True
   \<and> spec_best True (spec_objectives table_stop 2) = Fin 1
   \<and> spec_best True (spec_objectives table_stop 3) = Fin 2
   \<and> should_trial_stop median_rule 1 table_stop True
   \<and> spec_best True (spec_objectives table_ties 4) = NaN
   \<and> spec_comparison table_ties True [2, 3, 4] = [3, 5]
   \<and> should_trial_stop median_rule 1 table_ties True"
proof -
  have k: "min_iterations median_rule = 0 \<and> min_trials median_rule = 1
      \<and> set (map Trial_ID table_keep) = {1, 2, 3} \<and> (1::int) \<noteq> 2 \<and> (1::int) \<noteq> 3 \<and> (2::int) \<noteq> 3
      \<and> spec_best True (spec_objectives table_keep 1) = Fin 5
      \<and> spec_best True (spec_objectives table_keep 2) = Fin 3
      \<and> spec_best True (spec_objectives table_keep 3) = Fin 10"
    by (simp add: median_rule_def table_keep_def mk_row_def spec_best_def spec_objectives_def insert_commute)
  have s: "min_iterations median_rule = 0 \<and> min_trials median_rule = 1
      \<and> set (map Trial_ID table_stop) = {1, 2, 3} \<and> (1::int) \<noteq> 2 \<and> (1::int) \<noteq> 3 \<and> (2::int) \<noteq> 3
      \<and> spec_best True (spec_objectives table_stop 1) = Fin 5
      \<and> spec_best True (spec_objectives table_stop 2) = Fin 1
      \<and> spec_best True (spec_objectives table_stop 3) = Fin 2"
    by (simp add: median_rule_def table_stop_def mk_row_def spec_best_def spec_objectives_def)
  have "{u. u \<noteq> 1 \<and> spec_reached table_ties (min_iterations median_rule) u} = {2, 3, 4}"
    by (auto simp: median_rule_def table_ties_def mk_row_def spec_reached_def)
  then have g: "spec_reached table_ties (min_iterations median_rule) 1
      \<and> distinct [2, 3, 4::int]
      \<and> set [2, 3, 4] = {u. u \<noteq> 1 \<and> spec_reached table_ties (min_iterations median_rule) u}
      \<and> min_trials median_rule \<le> int (length [2, 3, 4::int])
      \<and> spec_best True (spec_objectives table_ties 1) = Fin 5"
    by (simp add: median_rule_def table_ties_def mk_row_def spec_best_def spec_objectives_def
        spec_reached_def)
  have c: "spec_best True (spec_objectives table_ties 4) = NaN
           \<and> spec_comparison table_ties True [2, 3, 4] = [3, 5]"
    by (simp add: table_ties_def mk_row_def spec_best_def spec_objectives_def spec_comparison_def)
  from k s g c show ?thesis
    using should_trial_stop_median[of table_keep median_rule 1 "[]" True 5 2 3 3 10]
          should_trial_stop_median[of table_stop median_rule 1 "[]" True 5 2 3 1 2]
          should_trial_stop_median[of table_ties median_rule 1 "[2, 3, 4]" True 5 2 3 0 0]
    by (simp add: spec_median_def)
qed

section \<open>Properties of GridSearch\<close>















section \<open>Properties of LocalSearch\<close>

lemma dict_eq_sym: "dict_eq a b = dict_eq b a"
  by (auto simp: dict_eq_def list_all_iff)

lemma dict_eq_refl: "dict_eq a a"
  by (simp add: dict_eq_def list_all_iff)

lemma dict_eq_iff: "dict_eq a b \<longleftrightarrow> (\<forall>k. dict_get a k = dict_get b k)"
proof
  assume e: "dict_eq a b"
  show "\<forall>k. dict_get a k = dict_get b k"
  proof
    fix k
    show "dict_get a k = dict_get b k"
    proof (cases "k \<in> set (dict_keys a) \<union> set (dict_keys b)")
      case True
      with e show ?thesis by (auto simp: dict_eq_def list_all_iff)
    next
      case False
      then have "dict_get a k = None" "dict_get b k = None"
        by (auto simp: dict_get_def dict_keys_def map_of_eq_None_iff)
      then show ?thesis by simp
    qed
  qed
next
  assume "\<forall>k. dict_get a k = dict_get b k"
  then show "dict_eq a b" by (simp add: dict_eq_def list_all_iff)
qed

lemma dict_eq_trans: "dict_eq a b \<Longrightarrow> dict_eq b c \<Longrightarrow> dict_eq a c"
  by (simp add: dict_eq_iff)

lemma in_submitted_iff: "in_submitted c submitted \<longleftrightarrow> (\<exists>s\<in>set submitted. dict_eq c s)"
  by (simp add: in_submitted_def list_ex_iff)

lemma try_values_Some:
  "try_values seed submitted name vals = Some c \<Longrightarrow> \<not> in_submitted c submitted"
  by (induction vals) (auto simp: Let_def split: if_splits)

lemma try_increase_Some:
  "try_increase self p incrs = Inr (Some c) \<Longrightarrow> \<not> in_submitted c (ls_submitted self)"
  by (induction incrs) (auto split: sum.splits if_splits)

lemma try_parameter_Some:
  "try_parameter self draws p = Inr (Some c) \<Longrightarrow> \<not> in_submitted c (ls_submitted self)"
  by (cases p) (auto simp: try_parameter_def dest: try_values_Some try_increase_Some)

lemma try_parameters_Some:
  "try_parameters self draws ps = Inr (Some c) \<Longrightarrow> \<not> in_submitted c (ls_submitted self)"
  by (induction ps) (auto split: sum.splits option.splits dest: try_parameter_Some)

lemma LocalSearch_step:
  assumes "ls_inv self"
      and "LocalSearch_get_suggestion parameters results lib draws self = Inr (y, self')"
  shows "ls_inv self' \<and> 0 < ls_count self'
       \<and> ((\<exists>c. y = Config c \<and> \<not> in_submitted c (ls_submitted self)
                \<and> ls_submitted self' = ls_submitted self @ [c])
           \<or> (y = Stop \<and> ls_submitted self' = ls_submitted self))"
proof (cases "ls_count self = 0")
  case True
  with assms show ?thesis
    by (auto simp: ls_inv_def LocalSearch_get_suggestion_def LocalSearch_get_next_trials_def
        Let_def in_submitted_def split: sum.splits)
next
  case False
  with assms(1) have c: "ls_count self + 1 \<noteq> 1" "0 \<le> ls_count self" by (auto simp: ls_inv_def)
  from assms c obtain seed where seed: "reseed parameters results lib (ls_seed_configuration self) = Inr seed"
    by (auto simp: ls_inv_def LocalSearch_get_suggestion_def LocalSearch_get_next_trials_def
        Let_def split: sum.splits)
  let ?s = "self\<lparr>ls_count := ls_count self + 1, ls_seed_configuration := seed\<rparr>"
  from assms c seed obtain r where r: "try_parameters ?s draws (sample_parameters draws) = Inr r"
    by (auto simp: ls_inv_def LocalSearch_get_suggestion_def LocalSearch_get_next_trials_def
        Let_def split: sum.splits)
  show ?thesis
  proof (cases r)
    case None
    with assms c seed r show ?thesis
      by (auto simp: ls_inv_def LocalSearch_get_suggestion_def LocalSearch_get_next_trials_def Let_def)
  next
    case (Some new_params)
    with r have "\<not> in_submitted new_params (ls_submitted ?s)" by (auto dest: try_parameters_Some)
    with assms c seed r Some show ?thesis
      by (auto simp: ls_inv_def LocalSearch_get_suggestion_def LocalSearch_get_next_trials_def Let_def)
  qed
qed

lemma LocalSearch_call_step:
  assumes "ls_inv self" "LocalSearch_call x self = Inr (y, self')"
  shows "ls_inv self' \<and> 0 < ls_count self'
       \<and> ((\<exists>c. y = Config c \<and> \<not> in_submitted c (ls_submitted self)
                \<and> ls_submitted self' = ls_submitted self @ [c])
           \<or> (y = Stop \<and> ls_submitted self' = ls_submitted self))"
proof -
  obtain parameters results lib draws where x: "x = (parameters, results, lib, draws)"
    by (cases x) auto
  from assms(2) have "LocalSearch_get_suggestion parameters results lib draws self = Inr (y, self')"
    by (simp add: LocalSearch_call_def x)
  from LocalSearch_step[OF assms(1) this] show ?thesis .
qed

lemma in_submitted_append: "in_submitted c sub \<Longrightarrow> in_submitted c (sub @ extra)"
  by (auto simp: in_submitted_iff)

lemma trace_new_configs:
  assumes "ls_inv self" "\<forall>c\<in>set old. in_submitted c (ls_submitted self)"
  shows "(\<forall>j<length (trace LocalSearch_call xs self). \<forall>c'.
            trace LocalSearch_call xs self ! j = Inr (Config c') \<longrightarrow> (\<forall>c\<in>set old. \<not> dict_eq c c'))
       \<and> (\<forall>i j c c'. i < j \<and> j < length (trace LocalSearch_call xs self)
              \<and> trace LocalSearch_call xs self ! i = Inr (Config c)
              \<and> trace LocalSearch_call xs self ! j = Inr (Config c') \<longrightarrow> \<not> dict_eq c c')"
  using assms
proof (induction xs arbitrary: self old)
  case Nil
  then show ?case by simp
next
  case (Cons x xs)
  show ?case
  proof (cases "LocalSearch_call x self")
    case (Inl e)
    then show ?thesis by simp
  next
    case (Inr p)
    obtain y self' where p: "p = (y, self')" by (cases p)
    with Inr have call: "LocalSearch_call x self = Inr (y, self')" by simp
    let ?tr' = "trace LocalSearch_call xs self'"
    have tr: "trace LocalSearch_call (x # xs) self = Inr y # ?tr'" using call by simp
    from LocalSearch_call_step[OF Cons.prems(1) call]
    have inv': "ls_inv self'"
      and y: "(\<exists>c. y = Config c \<and> \<not> in_submitted c (ls_submitted self)
                \<and> ls_submitted self' = ls_submitted self @ [c])
           \<or> (y = Stop \<and> ls_submitted self' = ls_submitted self)" by auto
    let ?old' = "case y of Config c \<Rightarrow> old @ [c] | _ \<Rightarrow> old"
    have old': "\<forall>c\<in>set ?old'. in_submitted c (ls_submitted self')"
      using y Cons.prems(2) by (auto simp: in_submitted_iff dict_eq_refl)
    note IH = Cons.IH[OF inv' old']
    have head: "\<forall>c\<in>set old. \<not> dict_eq c c'" if "y = Config c'" for c'
    proof
      fix c assume "c \<in> set old"
      with Cons.prems(2) obtain s where s: "s \<in> set (ls_submitted self)" "dict_eq c s"
        by (auto simp: in_submitted_iff)
      from that y have "\<not> in_submitted c' (ls_submitted self)" by auto
      with s show "\<not> dict_eq c c'"
        using dict_eq_trans[of c' c s] dict_eq_sym[of c c'] by (auto simp: in_submitted_iff)
    qed
    have part1: "\<forall>c\<in>set old. \<not> dict_eq c c'"
      if "j < length (Inr y # ?tr')" "(Inr y # ?tr') ! j = Inr (Config c')" for j c'
    proof (cases j)
      case 0
      with that head show ?thesis by simp
    next
      case (Suc j')
      with that IH have "\<forall>c\<in>set ?old'. \<not> dict_eq c c'" by auto
      then show ?thesis by (cases y) auto
    qed
    have part2: "\<not> dict_eq c c'"
      if "i < j" "j < length (Inr y # ?tr')" "(Inr y # ?tr') ! i = Inr (Config c)"
         "(Inr y # ?tr') ! j = Inr (Config c')" for i j c c'
    proof -
      from that(1) obtain j' where j: "j = Suc j'" by (cases j) auto
      show ?thesis
      proof (cases i)
        case 0
        with that have yc: "y = Config c" by simp
        from that j IH have "\<forall>c\<in>set ?old'. \<not> dict_eq c c'" by auto
        with yc show ?thesis by simp
      next
        case (Suc i')
        with that j IH show ?thesis by auto
      qed
    qed
    from part1 part2 show ?thesis unfolding tr by blast
  qed
qed

lemma ls_inv_init: "ls_inv (LocalSearch_init seed factors 1)"
  by (simp add: ls_inv_def LocalSearch_init_def)

lemma final_state_inv:
  "ls_inv self \<Longrightarrow> ls_inv (final_state LocalSearch_call xs self)"
proof (induction xs arbitrary: self)
  case Nil
  then show ?case by simp
next
  case (Cons x xs)
  show ?case
  proof (cases "LocalSearch_call x self")
    case (Inl e)
    with Cons.prems show ?thesis by simp
  next
    case (Inr p)
    obtain y self' where "p = (y, self')" by (cases p)
    with Inr have call: "LocalSearch_call x self = Inr (y, self')" by simp
    from LocalSearch_call_step[OF Cons.prems call] have "ls_inv self'" by simp
    from Cons.IH[OF this] call show ?thesis by simp
  qed
qed

lemma final_state_count:
  "ls_inv self \<Longrightarrow> 0 < ls_count self \<Longrightarrow> 0 < ls_count (final_state LocalSearch_call xs self)"
proof (induction xs arbitrary: self)
  case Nil
  then show ?case by simp
next
  case (Cons x xs)
  show ?case
  proof (cases "LocalSearch_call x self")
    case (Inl e)
    with Cons.prems show ?thesis by simp
  next
    case (Inr p)
    obtain y self' where "p = (y, self')" by (cases p)
    with Inr have call: "LocalSearch_call x self = Inr (y, self')" by simp
    from LocalSearch_call_step[OF Cons.prems(1) call] have "ls_inv self'" "0 < ls_count self'" by simp_all
    from Cons.IH[OF this] call show ?thesis by simp
  qed
qed

lemma first_call:
  "\<exists>self'. LocalSearch_call x (LocalSearch_init seed factors 1) = Inr (Config seed, self')"
  by (cases x) (simp add: LocalSearch_call_def LocalSearch_get_suggestion_def
      LocalSearch_get_next_trials_def LocalSearch_init_def Let_def)

lemma final_state_started:
  assumes "xs \<noteq> []"
  shows "0 < ls_count (final_state LocalSearch_call xs (LocalSearch_init seed factors 1))"
proof -
  from assms obtain x xs' where xs: "xs = x # xs'" by (cases xs) auto
  from first_call[of x seed factors] obtain self' where
    c: "LocalSearch_call x (LocalSearch_init seed factors 1) = Inr (Config seed, self')" by blast
  from LocalSearch_call_step[OF ls_inv_init c] have "ls_inv self'" "0 < ls_count self'" by auto
  from final_state_count[OF this] show ?thesis using xs c by simp
qed

lemma try_values_None:
  assumes "\<forall>val\<in>set vals. in_submitted (dict_set seed name val) submitted"
  shows "try_values seed submitted name vals = None"
  using assms by (induction vals) (auto simp: Let_def)

lemma LocalSearch_perturb_factors:
  "ls_perturbation_factors s = ls_perturbation_factors s' \<Longrightarrow>
     LocalSearch_perturb s c p incr = LocalSearch_perturb s' c p incr"
  by (cases p) simp_all

lemma try_increase_None:
  assumes "\<forall>incr\<in>set incrs. \<exists>c. LocalSearch_perturb self (ls_seed_configuration self) p incr = Inr c
             \<and> in_submitted c (ls_submitted self)"
  shows "try_increase self p incrs = Inr None"
  using assms by (induction incrs) auto

lemma submitted_case:
  "(case x of Inl e \<Rightarrow> False | Inr c \<Rightarrow> in_submitted c sub) \<longleftrightarrow> (\<exists>c. x = Inr c \<and> in_submitted c sub)"
  by (cases x) auto

lemma perturbations_Choice:
  "perturbations self seed (Choice name rng) = map (\<lambda>val. Inr (dict_set seed name val)) rng"
  by (simp add: perturbations_def)

lemma perturbations_other:
  "\<forall>name rng. p \<noteq> Choice name rng \<Longrightarrow>
     perturbations self seed p = [LocalSearch_perturb self seed p True, LocalSearch_perturb self seed p False]"
  by (cases p) (simp_all add: perturbations_def)

lemma try_parameter_other:
  "\<forall>name rng. p \<noteq> Choice name rng \<Longrightarrow>
     try_parameter self draws p = try_increase self p (sample_increase draws p)"
  by (cases p) (simp_all add: try_parameter_def)

lemma try_parameter_None:
  assumes "list_all (\<lambda>x. case x of Inl e \<Rightarrow> False | Inr c \<Rightarrow> in_submitted c (ls_submitted self))
             (perturbations self (ls_seed_configuration self) p)"
      and "set (sample_range draws p) = set (p_range p)"
      and "set (sample_increase draws p) = {True, False}"
  shows "try_parameter self draws p = Inr None"
proof (cases "\<exists>name rng. p = Choice name rng")
  case True
  then obtain name rng where p: "p = Choice name rng" by blast
  from assms(1) have "\<forall>val\<in>set rng. in_submitted (dict_set (ls_seed_configuration self) name val) (ls_submitted self)"
    unfolding p perturbations_Choice by (simp add: list_all_iff)
  then have "try_values (ls_seed_configuration self) (ls_submitted self) name (sample_range draws p) = None"
    using assms(2) p by (intro try_values_None) simp
  then show ?thesis by (simp add: try_parameter_def p)
next
  case False
  then have np: "\<forall>name rng. p \<noteq> Choice name rng" by blast
  from assms(1) have t: "\<exists>c. LocalSearch_perturb self (ls_seed_configuration self) p True = Inr c
             \<and> in_submitted c (ls_submitted self)"
    and f: "\<exists>c. LocalSearch_perturb self (ls_seed_configuration self) p False = Inr c
             \<and> in_submitted c (ls_submitted self)"
    unfolding perturbations_other[OF np] by (simp_all add: submitted_case)
  have "\<forall>incr\<in>set (sample_increase draws p).
      \<exists>c. LocalSearch_perturb self (ls_seed_configuration self) p incr = Inr c
             \<and> in_submitted c (ls_submitted self)"
  proof
    fix incr show "\<exists>c. LocalSearch_perturb self (ls_seed_configuration self) p incr = Inr c
             \<and> in_submitted c (ls_submitted self)"
      using t f by (cases incr) simp_all
  qed
  from try_increase_None[OF this] show ?thesis by (simp only: try_parameter_other[OF np])
qed

lemma try_parameters_None:
  assumes "\<forall>p\<in>set ps. try_parameter self draws p = Inr None"
  shows "try_parameters self draws ps = Inr None"
  using assms by (induction ps) auto

lemma valid_draws_sets:
  assumes "valid_draws parameters draws"
  shows "set (sample_parameters draws) = set parameters"
    and "p \<in> set parameters \<Longrightarrow> set (sample_range draws p) = set (p_range p)"
    and "p \<in> set parameters \<Longrightarrow> set (sample_increase draws p) = {True, False}"
proof -
  from assms show "set (sample_parameters draws) = set parameters"
    by (auto simp: valid_draws_def dest: mset_eq_setD)
  assume p: "p \<in> set parameters"
  with assms have m: "mset (sample_range draws p) = mset (p_range p)"
    "mset (sample_increase draws p) = mset [True, False]"
    by (auto simp: valid_draws_def list_all_iff)
  have a: "set (sample_range draws p) = set (p_range p)" by (rule mset_eq_setD[OF m(1)])
  have b: "set (sample_increase draws p) = set [True, False]" by (rule mset_eq_setD[OF m(2)])
  from a b show "set (sample_range draws p) = set (p_range p)" "set (sample_increase draws p) = {True, False}"
    by simp_all
qed

lemma exhausted_upd:
  "exhausted (self\<lparr>ls_count := k, ls_seed_configuration := seed\<rparr>) seed parameters
     = exhausted self seed parameters"
proof -
  have "perturbations (self\<lparr>ls_count := k, ls_seed_configuration := seed\<rparr>) seed p
          = perturbations self seed p" for p
    using LocalSearch_perturb_factors[of "self\<lparr>ls_count := k, ls_seed_configuration := seed\<rparr>" self]
    by (cases p) (simp_all add: perturbations_def)
  then show ?thesis by (simp add: exhausted_def cong: sum.case_cong)
qed

lemma LocalSearch_exhausted_stop:
  assumes "ls_inv self" "0 < ls_count self" "valid_draws parameters draws"
      and "reseed parameters results lib (ls_seed_configuration self) = Inr seed"
      and "exhausted self seed parameters"
  shows "LocalSearch_get_suggestion parameters results lib draws self
           = Inr (Stop, self\<lparr>ls_count := ls_count self + 1, ls_seed_configuration := seed\<rparr>)"
proof -
  let ?s = "self\<lparr>ls_count := ls_count self + 1, ls_seed_configuration := seed\<rparr>"
  have ex: "exhausted ?s seed parameters" using assms(5) by (simp only: exhausted_upd)
  have "try_parameter ?s draws p = Inr None" if "p \<in> set parameters" for p
    using ex that valid_draws_sets(2,3)[OF assms(3) that]
    by (intro try_parameter_None) (auto simp: exhausted_def list_all_iff)
  then have "try_parameters ?s draws (sample_parameters draws) = Inr None"
    using valid_draws_sets(1)[OF assms(3)] by (intro try_parameters_None) auto
  with assms(1,2,4) show ?thesis
    by (simp add: ls_inv_def LocalSearch_get_suggestion_def LocalSearch_get_next_trials_def Let_def)
qed


lemma ls_example_state:
  "final_state LocalSearch_call [ls_call_empty, ls_call_empty, ls_call_empty] ls_example
     = \<lparr> ls_seed_configuration = [(''a'', Num 1), (''b'', Str ''x'')], ls_count = 3,
         ls_submitted = [[(''a'', Num 1), (''b'', Str ''x'')], [(''a'', Num 2), (''b'', Str ''x'')],
                         [(''a'', Num 1), (''b'', Str ''y'')]],
         ls_perturbation_factors = [0.8, 1.2], ls_next_trial = [], ls_repeat_trials = 1 \<rparr>"
  by (simp add: ls_example_def ls_call_empty_def LocalSearch_call_def
      LocalSearch_get_suggestion_def LocalSearch_get_next_trials_def LocalSearch_init_def
      reseed_def try_parameter_def in_submitted_def
      dict_eq_def dict_get_def dict_keys_def plain_draws_def two_choices_def Let_def)

lemma ls_example_trace3:
  "trace LocalSearch_call [ls_call_empty, ls_call_empty, ls_call_empty] ls_example
     = [Inr (Config [(''a'', Num 1), (''b'', Str ''x'')]),
        Inr (Config [(''a'', Num 2), (''b'', Str ''x'')]),
        Inr (Config [(''a'', Num 1), (''b'', Str ''y'')])]"
  by (simp add: ls_example_def ls_call_empty_def LocalSearch_call_def
      LocalSearch_get_suggestion_def LocalSearch_get_next_trials_def LocalSearch_init_def
      reseed_def try_parameter_def in_submitted_def
      dict_eq_def dict_get_def dict_keys_def plain_draws_def two_choices_def Let_def)

text \<open>
  C9. \<^verbatim>\<open>LocalSearch\<close> with \<^verbatim>\<open>repeat_trials=1\<close>, over any sequence of calls (any
  parameters, results and random orders at each call). No two calls return equal
  configurations. A call returns only a configuration that is not in \<open>submitted\<close>, and
  appends it there. Once the seed has been issued (after the first call), a call at
  which every perturbation of the current seed, the seed after re-seeding from the
  results, has been submitted returns Stop.
\<close>

theorem LocalSearch_no_repeats:
  fixes seed_configuration :: config and factors :: "real list"
    and inputs :: "(pyval parameter list \<times> results \<times> bool \<times> ls_draws) list"
  defines "tr \<equiv> trace LocalSearch_call inputs (LocalSearch_init seed_configuration factors 1)"
      and "self \<equiv> final_state LocalSearch_call inputs (LocalSearch_init seed_configuration factors 1)"
  shows "(\<forall>i j c c'. i < j \<and> j < length tr \<and> tr ! i = Inr (Config c) \<and> tr ! j = Inr (Config c')
            \<longrightarrow> \<not> dict_eq c c')
       \<and> (LocalSearch_get_suggestion parameters results lower_is_better draws self = Inr (Config c, self')
            \<longrightarrow> \<not> in_submitted c (ls_submitted self) \<and> ls_submitted self' = ls_submitted self @ [c])
       \<and> (inputs \<noteq> [] \<and> valid_draws parameters draws
            \<and> reseed parameters results lower_is_better (ls_seed_configuration self) = Inr seed
            \<and> exhausted self seed parameters
            \<longrightarrow> (\<exists>self'. LocalSearch_get_suggestion parameters results lower_is_better draws self
                          = Inr (Stop, self')))"
proof (intro conjI)
  have inv: "ls_inv self" unfolding self_def by (intro final_state_inv ls_inv_init)
  show "\<forall>i j c c'. i < j \<and> j < length tr \<and> tr ! i = Inr (Config c) \<and> tr ! j = Inr (Config c')
            \<longrightarrow> \<not> dict_eq c c'"
    using trace_new_configs[OF ls_inv_init, of "[]" seed_configuration factors inputs]
    unfolding tr_def by simp
  show "LocalSearch_get_suggestion parameters results lower_is_better draws self = Inr (Config c, self')
            \<longrightarrow> \<not> in_submitted c (ls_submitted self) \<and> ls_submitted self' = ls_submitted self @ [c]"
    using LocalSearch_step[OF inv, of parameters results lower_is_better draws "Config c" self'] by auto
  show "inputs \<noteq> [] \<and> valid_draws parameters draws
            \<and> reseed parameters results lower_is_better (ls_seed_configuration self) = Inr seed
            \<and> exhausted self seed parameters
            \<longrightarrow> (\<exists>self'. LocalSearch_get_suggestion parameters results lower_is_better draws self
                          = Inr (Stop, self'))"
  proof
    assume a: "inputs \<noteq> [] \<and> valid_draws parameters draws
            \<and> reseed parameters results lower_is_better (ls_seed_configuration self) = Inr seed
            \<and> exhausted self seed parameters"
    then have "0 < ls_count self" unfolding self_def by (intro final_state_started) simp
    from LocalSearch_exhausted_stop[OF inv this, of parameters draws results lower_is_better seed] a
    show "\<exists>self'. LocalSearch_get_suggestion parameters results lower_is_better draws self
                          = Inr (Stop, self')" by blast
  qed
qed

theorem LocalSearch_no_repeats_witness:
  "trace LocalSearch_call [ls_call_empty, ls_call_empty, ls_call_empty] ls_example
     = [Inr (Config [(''a'', Num 1), (''b'', Str ''x'')]),
        Inr (Config [(''a'', Num 2), (''b'', Str ''x'')]),
        Inr (Config [(''a'', Num 1), (''b'', Str ''y'')])]
   \<and> \<not> dict_eq [(''a'', Num 1), (''b'', Str ''x'')] [(''a'', Num 2), (''b'', Str ''x'')]
   \<and> \<not> dict_eq [(''a'', Num 2), (''b'', Str ''x'')] [(''a'', Num 1), (''b'', Str ''y'')]
   \<and> valid_draws two_choices (plain_draws two_choices)
   \<and> exhausted (final_state LocalSearch_call [ls_call_empty, ls_call_empty, ls_call_empty] ls_example)
         [(''a'', Num 1), (''b'', Str ''x'')] two_choices
   \<and> (\<exists>self'. LocalSearch_get_suggestion two_choices [] True (plain_draws two_choices)
                  (final_state LocalSearch_call [ls_call_empty, ls_call_empty, ls_call_empty] ls_example)
                = Inr (Stop, self'))"
proof -
  let ?inputs = "[ls_call_empty, ls_call_empty, ls_call_empty]"
  let ?self = "final_state LocalSearch_call ?inputs ls_example"
  have v: "valid_draws two_choices (plain_draws two_choices)"
    by (simp add: valid_draws_def plain_draws_def two_choices_def)
  have r: "reseed two_choices [] True (ls_seed_configuration ?self) = Inr [(''a'', Num 1), (''b'', Str ''x'')]"
    unfolding ls_example_state by (simp add: reseed_def)
  have e: "exhausted ?self [(''a'', Num 1), (''b'', Str ''x'')] two_choices"
    unfolding ls_example_state
    by (simp add: exhausted_def perturbations_def two_choices_def in_submitted_def
        dict_eq_def dict_get_def dict_keys_def)
  have n: "?inputs \<noteq> []" by simp
  note inst = LocalSearch_no_repeats[of ?inputs "[(''a'', Num 1), (''b'', Str ''x'')]" "[0.8, 1.2]"
      two_choices "[]" True "plain_draws two_choices" _ _ "[(''a'', Num 1), (''b'', Str ''x'')]",
      folded ls_example_def]
  from inst have d: "\<forall>i j c c'. i < j \<and> j < length (trace LocalSearch_call ?inputs ls_example)
      \<and> trace LocalSearch_call ?inputs ls_example ! i = Inr (Config c)
      \<and> trace LocalSearch_call ?inputs ls_example ! j = Inr (Config c') \<longrightarrow> \<not> dict_eq c c'"
    and s: "\<exists>self'. LocalSearch_get_suggestion two_choices [] True (plain_draws two_choices) ?self
                = Inr (Stop, self')"
    using n v r e by blast+
  note d' = d[unfolded ls_example_trace3, rule_format]
  from d'[of 0 1] d'[of 1 2]
  have "\<not> dict_eq [(''a'', Num 1), (''b'', Str ''x'')] [(''a'', Num 2), (''b'', Str ''x'')]"
       "\<not> dict_eq [(''a'', Num 2), (''b'', Str ''x'')] [(''a'', Num 1), (''b'', Str ''y'')]"
    by simp_all
  with v e s ls_example_trace3 show ?thesis by blast
qed

section \<open>Stop is final\<close>






lemma get_param_dict_fields [simp]:
  "get_param_dict (self\<lparr>gs_grid := g\<rparr>) ps = get_param_dict self ps"
  "get_param_dict (self\<lparr>gs_i := i\<rparr>) ps = get_param_dict self ps"
  "get_param_dict (self\<lparr>gs_j := j\<rparr>) ps = get_param_dict self ps"
  "get_param_dict (self\<lparr>gs_theta_i := t\<rparr>) ps = get_param_dict self ps"
  by (simp_all add: get_param_dict_def)

















lemma not_config_nth:
  "list_all (\<lambda>z. \<not> is_config z) ys \<longleftrightarrow> (\<forall>j<length ys. \<forall>c. ys ! j \<noteq> Inr (Config c))"
proof -
  have "\<not> is_config z \<longleftrightarrow> (\<forall>c. z \<noteq> Inr (Config c))" for z :: "error + 'a suggestion"
    by (cases z rule: is_config.cases) auto
  then show ?thesis by (simp add: list_all_length)
qed

lemma stop_is_final_nth:
  "stop_is_final tr \<longleftrightarrow>
     (\<forall>i j. i < j \<and> j < length tr \<and> tr ! i = Inr Stop \<longrightarrow> (\<forall>c. tr ! j \<noteq> Inr (Config c)))"
proof (induction tr)
  case Nil
  then show ?case by simp
next
  case (Cons y ys)
  have "(\<forall>i j. i < j \<and> j < length (y # ys) \<and> (y # ys) ! i = Inr Stop \<longrightarrow> (\<forall>c. (y # ys) ! j \<noteq> Inr (Config c)))
      \<longleftrightarrow> ((y = Inr Stop \<longrightarrow> (\<forall>j<length ys. \<forall>c. ys ! j \<noteq> Inr (Config c)))
           \<and> (\<forall>i j. i < j \<and> j < length ys \<and> ys ! i = Inr Stop \<longrightarrow> (\<forall>c. ys ! j \<noteq> Inr (Config c))))"
    (is "?L \<longleftrightarrow> ?A \<and> ?B")
  proof
    assume L: ?L
    have ?A
    proof (intro impI allI)
      fix j c assume "y = Inr Stop" "j < length ys"
      with L[rule_format, of 0 "Suc j" c] show "ys ! j \<noteq> Inr (Config c)" by simp
    qed
    moreover have ?B
    proof (intro impI allI)
      fix i j c assume "i < j \<and> j < length ys \<and> ys ! i = Inr Stop"
      with L[rule_format, of "Suc i" "Suc j" c] show "ys ! j \<noteq> Inr (Config c)" by simp
    qed
    ultimately show "?A \<and> ?B" ..
  next
    assume AB: "?A \<and> ?B"
    show ?L
    proof (intro impI allI)
      fix i j c assume h: "i < j \<and> j < length (y # ys) \<and> (y # ys) ! i = Inr Stop"
      then obtain j' where j: "j = Suc j'" by (cases j) auto
      show "(y # ys) ! j \<noteq> Inr (Config c)"
      proof (cases i)
        case 0
        with h j AB show ?thesis by simp
      next
        case (Suc i')
        with h j AB show ?thesis by auto
      qed
    qed
  qed
  with Cons show ?case by (auto simp: not_config_nth)
qed




end
